theory Spec2Isabelle
  imports Main
begin

section \<open>The handle template (include/util/Handle.h)\<close>

text \<open>
  \<^verbatim>\<open>Internal::Handle<handle_version_type, handle_index_type, version_bits, index_bits>\<close>
  is a class template. The unsigned integer types \<^verbatim>\<open>u16\<close>, \<^verbatim>\<open>u32\<close>, \<^verbatim>\<open>u64\<close> are
  represented by their widths and their values by natural numbers, with every
  truncation written out as \<open>mod 2 ^ w\<close>. \<^verbatim>\<open>int\<close> and \<^verbatim>\<open>unsigned int\<close> are taken to be
  32 bits wide, as on every platform the library is built for.
\<close>

text \<open>
  \<^verbatim>\<open>1U << n\<close>: a shift of a 32-bit \<^verbatim>\<open>unsigned int\<close>. A shift count that is not smaller
  than the width of the left operand has no defined result; it is \<open>None\<close> here.
\<close>

definition shl_1U :: "nat \<Rightarrow> nat option" where
  "shl_1U n = (if n < 32 then Some (2 ^ n mod 2 ^ 32) else None)"

text \<open>\<^verbatim>\<open>x - 1U\<close> for a 32-bit \<^verbatim>\<open>unsigned int\<close> \<open>x\<close>: the difference modulo \<open>2 ^ 32\<close>.\<close>

definition sub_1U :: "nat \<Rightarrow> nat" where
  "sub_1U x = (x + 2 ^ 32 - 1) mod 2 ^ 32"

text \<open>\<^verbatim>\<open>(1U << n) - 1U\<close>\<close>

definition shl_1U_minus_1U :: "nat \<Rightarrow> nat option" where
  "shl_1U_minus_1U n = map_option sub_1U (shl_1U n)"

text \<open>
  \<^verbatim>\<open>static constexpr T NAME { e }\<close>: list-initialisation of a constant of a \<open>w\<close>-bit
  unsigned type from a constant expression. A value that does not fit is a narrowing
  conversion, which is ill-formed: \<open>None\<close>.
\<close>

definition brace_init :: "nat \<Rightarrow> nat \<Rightarrow> nat option" where
  "brace_init w x = (if x < 2 ^ w then Some x else None)"

text \<open>The three constants, as functions of the width of their type and of the bit count.\<close>

definition MIN_VERISON_const :: "nat \<Rightarrow> nat option" where
  "MIN_VERISON_const version_type_w = brace_init version_type_w 0"

definition MAX_VERSION_const :: "nat \<Rightarrow> nat \<Rightarrow> nat option" where
  "MAX_VERSION_const version_type_w version_bits =
     Option.bind (shl_1U_minus_1U version_bits) (brace_init version_type_w)"

definition MAX_INDICES_const :: "nat \<Rightarrow> nat \<Rightarrow> nat option" where
  "MAX_INDICES_const index_type_w index_bits =
     Option.bind (shl_1U_minus_1U index_bits) (brace_init index_type_w)"

text \<open>
  One instantiation of the template: the widths of the two integer types, the two bit
  counts, and the values of its constants.
\<close>

record Handle_inst =
  version_type_bits :: nat
  index_type_bits :: nat
  NUM_VERSION_BITS :: nat
  NUM_INDEX_BITS :: nat
  MIN_VERISON :: nat
  MAX_VERSION :: nat
  MAX_INDICES :: nat

text \<open>
  Instantiating the template evaluates the constants. The instantiation exists only if
  each of them has a value, and if each of the two named bit-fields
  (\<^verbatim>\<open>index : NUM_INDEX_BITS\<close>, \<^verbatim>\<open>version : NUM_VERSION_BITS\<close>) has a width other than zero.
\<close>

definition Handle_template :: "nat \<Rightarrow> nat \<Rightarrow> nat \<Rightarrow> nat \<Rightarrow> Handle_inst option" where
  "Handle_template version_type_w index_type_w version_bits index_bits =
     (if version_bits = 0 \<or> index_bits = 0 then None
      else
        case MIN_VERISON_const version_type_w of
          None \<Rightarrow> None
        | Some mn \<Rightarrow>
           (case MAX_VERSION_const version_type_w version_bits of
              None \<Rightarrow> None
            | Some mv \<Rightarrow>
               (case MAX_INDICES_const index_type_w index_bits of
                  None \<Rightarrow> None
                | Some mi \<Rightarrow>
                    Some \<lparr> version_type_bits = version_type_w,
                           index_type_bits = index_type_w,
                           NUM_VERSION_BITS = version_bits,
                           NUM_INDEX_BITS = index_bits,
                           MIN_VERISON = mn,
                           MAX_VERSION = mv,
                           MAX_INDICES = mi \<rparr>)))"

text \<open>
  \<^verbatim>\<open>using Handle32 = Internal::Handle<u16, u32, 12, 20>;\<close>

  Modelled from the spec: \<^verbatim>\<open>API.h\<close>, which declares \<^verbatim>\<open>u16\<close>, \<^verbatim>\<open>u32\<close> and \<^verbatim>\<open>u64\<close>, is not
  among the sources. They are taken to be the unsigned integer types of 16, 32 and 64
  bits, which gives the 32-bit and the 64-bit handle of the spec.
\<close>

definition Handle32 :: "Handle_inst option" where
  "Handle32 = Handle_template 16 32 12 20"

text \<open>
  \<^verbatim>\<open>using Handle64 = Internal::Handle<u32, u64, 24, 40>;\<close> when \<^verbatim>\<open>ECS_64BIT\<close> is defined,
  and \<^verbatim>\<open>Handle32\<close> otherwise.
\<close>

definition Handle64 :: "bool \<Rightarrow> Handle_inst option" where
  "Handle64 ECS_64BIT = (if ECS_64BIT then Handle_template 32 64 24 40 else Handle32)"

text \<open>An instantiation that the template produces.\<close>

definition valid_inst :: "Handle_inst \<Rightarrow> bool" where
  "valid_inst K \<longleftrightarrow>
     Handle_template (version_type_bits K) (index_type_bits K)
       (NUM_VERSION_BITS K) (NUM_INDEX_BITS K) = Some K"

text \<open>
  A handle value: the two bit-fields of the union. The constructor
  \<^verbatim>\<open>Handle(index_type index, version_type version)\<close> stores each argument in its
  bit-field, which keeps the low bits only.
\<close>

record handle =
  index :: nat
  version :: nat

definition Handle_ctor :: "Handle_inst \<Rightarrow> nat \<Rightarrow> nat \<Rightarrow> handle" where
  "Handle_ctor K i v =
     \<lparr> index = i mod 2 ^ NUM_INDEX_BITS K, version = v mod 2 ^ NUM_VERSION_BITS K \<rparr>"

section \<open>The handle table\<close>

text \<open>
  \<^verbatim>\<open>HandleTable<T, handle_version, grow>\<close>: the handle instantiation, the growth
  increment, and whether \<^verbatim>\<open>assert\<close> is compiled out (\<^verbatim>\<open>NDEBUG\<close>). A \<^verbatim>\<open>T*\<close> is an
  \<open>'a option\<close>, \<open>None\<close> being \<^verbatim>\<open>nullptr\<close>; a \<^verbatim>\<open>TableEntry\<close> is the pair
  (version, pointer); \<^verbatim>\<open>m_Table\<close> is a list of entries.

  \<^verbatim>\<open>std::min(oldSize + grow, Handle::MAX_INDICES)\<close> in \<^verbatim>\<open>GrowTable\<close> takes both
  arguments at one type, so \<^verbatim>\<open>size_t\<close> is the handle's \<^verbatim>\<open>index_type\<close> wherever the table
  compiles: sizes are \<open>index_type_bits\<close> wide.
\<close>

type_synonym 'a TableEntry = "nat \<times> 'a option"

record HandleTable_inst =
  Handle :: Handle_inst
  grow :: nat
  NDEBUG :: bool

datatype error = AssertionFailed string | UndefinedBehaviour

text \<open>\<^verbatim>\<open>assert(c && "msg")\<close>: aborts when \<open>c\<close> is false, unless compiled out.\<close>

definition assert_that :: "bool \<Rightarrow> bool \<Rightarrow> string \<Rightarrow> error + unit" where
  "assert_that ndebug c msg = (if ndebug \<or> c then Inr () else Inl (AssertionFailed msg))"

text \<open>
  \<^verbatim>\<open>std::vector::resize(n)\<close>: drops the entries from \<open>n\<close> on, or appends
  value-initialised entries, which are \<^verbatim>\<open>(0, nullptr)\<close>.
\<close>

definition resize :: "nat \<Rightarrow> 'a TableEntry list \<Rightarrow> 'a TableEntry list" where
  "resize n t = take n t @ replicate (n - length t) (0, None)"

text \<open>
  The loop of \<^verbatim>\<open>GrowTable\<close>:
  \<^verbatim>\<open>for (index_type i = oldSize; i < newSize; ++i) m_Table[i] = TableEntry(MIN_VERISON, nullptr);\<close>
  It runs right after \<^verbatim>\<open>resize(newSize)\<close>, so every \<open>i\<close> it visits is in range, and
  \<open>newSize\<close> is at most \<^verbatim>\<open>MAX_INDICES\<close>, a value of \<^verbatim>\<open>index_type\<close>, so \<open>i\<close> does not wrap.
\<close>

function GrowTable_loop ::
  "Handle_inst \<Rightarrow> nat \<Rightarrow> nat \<Rightarrow> 'a TableEntry list \<Rightarrow> 'a TableEntry list" where
  "GrowTable_loop K i newSize t =
     (if i < newSize then GrowTable_loop K (i + 1) newSize (t[i := (MIN_VERISON K, None)])
      else t)"
  by pat_completeness auto
termination
  by (relation "measure (\<lambda>(K, i, newSize, t). newSize - i)") auto

definition GrowTable :: "HandleTable_inst \<Rightarrow> 'a TableEntry list \<Rightarrow> error + 'a TableEntry list" where
  "GrowTable C t =
     (let oldSize = length t in
      case assert_that (NDEBUG C) (oldSize < MAX_INDICES (Handle C))
             ''Max table capacity reached!'' of
        Inl e \<Rightarrow> Inl e
      | Inr _ \<Rightarrow>
          let newSize = min ((oldSize + grow C) mod 2 ^ index_type_bits (Handle C))
                            (MAX_INDICES (Handle C))
          in Inr (GrowTable_loop (Handle C) oldSize newSize (resize newSize t)))"

text \<open>The constructor: \<^verbatim>\<open>HandleTable() { this->GrowTable(); }\<close> on the empty vector.\<close>

definition HandleTable :: "HandleTable_inst \<Rightarrow> error + 'a TableEntry list" where
  "HandleTable C = GrowTable C []"

text \<open>
  \<^verbatim>\<open>m_Table[i].first + 1\<close>: a version type narrower than \<^verbatim>\<open>int\<close> is promoted to \<^verbatim>\<open>int\<close>
  and the sum is exact; otherwise the sum is unsigned arithmetic at the type's width.
\<close>

definition version_plus_1 :: "Handle_inst \<Rightarrow> nat \<Rightarrow> nat" where
  "version_plus_1 K v =
     (if version_type_bits K < 32 then v + 1 else (v + 1) mod 2 ^ version_type_bits K)"

text \<open>
  The value assigned to \<^verbatim>\<open>m_Table[i].first\<close> when a slot is reused:
  \<^verbatim>\<open>((first + 1) > MAX_VERSION) ? MIN_VERISON : first + 1\<close>, converted to \<^verbatim>\<open>version_type\<close>.
\<close>

definition next_version :: "Handle_inst \<Rightarrow> nat \<Rightarrow> nat" where
  "next_version K v =
     (if version_plus_1 K v > MAX_VERSION K then MIN_VERISON K else version_plus_1 K v)
       mod 2 ^ version_type_bits K"

text \<open>
  The scan of \<^verbatim>\<open>AqcuireHandle\<close>:
  \<^verbatim>\<open>for (; i < m_Table.size(); ++i) if (m_Table[i].second == nullptr) { ...; return ...; }\<close>
  \<open>Inr\<close> is the early return; \<open>Inl i\<close> is the value of \<open>i\<close> when the loop ends without one.
  The table is private and only \<^verbatim>\<open>GrowTable\<close> sets its size, to at most \<^verbatim>\<open>MAX_INDICES\<close>,
  so the \<^verbatim>\<open>index_type\<close> counter does not wrap on a table the class can hold.
\<close>

function AqcuireHandle_scan ::
  "HandleTable_inst \<Rightarrow> 'a option \<Rightarrow> nat \<Rightarrow> 'a TableEntry list
     \<Rightarrow> nat + (handle \<times> 'a TableEntry list)" where
  "AqcuireHandle_scan C rawObject i t =
     (if i < length t then
        if snd (t ! i) = None then
          let t1 = t[i := (fst (t ! i), rawObject)];
              t2 = t1[i := (next_version (Handle C) (fst (t1 ! i)), snd (t1 ! i))]
          in Inr (Handle_ctor (Handle C) i (fst (t2 ! i)), t2)
        else AqcuireHandle_scan C rawObject (i + 1) t
      else Inl i)"
  by pat_completeness auto
termination
  by (relation "measure (\<lambda>(C, rawObject, i, t). length t - i)") auto

text \<open>
  \<^verbatim>\<open>AqcuireHandle\<close>. After the scan, \<^verbatim>\<open>GrowTable()\<close>, then
  \<^verbatim>\<open>m_Table[i].second = rawObject; return Handle(i, m_Table[i].first++);\<close>
  The post-increment yields the old version and stores the old version plus one.
  \<^verbatim>\<open>m_Table[i]\<close> outside the vector is undefined behaviour.
\<close>

definition AqcuireHandle ::
  "HandleTable_inst \<Rightarrow> 'a option \<Rightarrow> 'a TableEntry list
     \<Rightarrow> error + (handle \<times> 'a TableEntry list)" where
  "AqcuireHandle C rawObject t =
     (case AqcuireHandle_scan C rawObject 0 t of
        Inr r \<Rightarrow> Inr r
      | Inl i \<Rightarrow>
         (case GrowTable C t of
            Inl e \<Rightarrow> Inl e
          | Inr t1 \<Rightarrow>
              if i < length t1 then
                let t2 = t1[i := (fst (t1 ! i), rawObject)];
                    old = fst (t2 ! i);
                    t3 = t2[i := ((old + 1) mod 2 ^ version_type_bits (Handle C), snd (t2 ! i))]
                in Inr (Handle_ctor (Handle C) i old, t3)
              else Inl UndefinedBehaviour))"

text \<open>
  \<^verbatim>\<open>ReleaseHandle\<close>: the assertion, then \<^verbatim>\<open>m_Table[handle.index].second = nullptr\<close>.
\<close>

definition ReleaseHandle ::
  "HandleTable_inst \<Rightarrow> handle \<Rightarrow> 'a TableEntry list \<Rightarrow> error + 'a TableEntry list" where
  "ReleaseHandle C h t =
     (case assert_that (NDEBUG C)
             (index h < length t \<and> version h = fst (t ! index h)) ''Invalid handle!'' of
        Inl e \<Rightarrow> Inl e
      | Inr _ \<Rightarrow>
          if index h < length t then Inr (t[index h := (fst (t ! index h), None)])
          else Inl UndefinedBehaviour)"

text \<open>\<^verbatim>\<open>IsExpired\<close>: no bounds check before \<^verbatim>\<open>m_Table[handle.index]\<close>.\<close>

definition IsExpired :: "'a TableEntry list \<Rightarrow> handle \<Rightarrow> error + bool" where
  "IsExpired t h =
     (if index h < length t then Inr (fst (t ! index h) \<noteq> version h)
      else Inl UndefinedBehaviour)"

text \<open>\<^verbatim>\<open>Handle operator[](index_type index) const\<close>\<close>

definition operator_index ::
  "HandleTable_inst \<Rightarrow> 'a TableEntry list \<Rightarrow> nat \<Rightarrow> error + handle" where
  "operator_index C t i =
     (case assert_that (NDEBUG C) (i < length t) ''Invalid handle!'' of
        Inl e \<Rightarrow> Inl e
      | Inr _ \<Rightarrow>
          if i < length t then Inr (Handle_ctor (Handle C) i (fst (t ! i)))
          else Inl UndefinedBehaviour)"

text \<open>\<^verbatim>\<open>T* operator[](Handle handle)\<close>\<close>

definition operator_handle ::
  "HandleTable_inst \<Rightarrow> 'a TableEntry list \<Rightarrow> handle \<Rightarrow> error + 'a option" where
  "operator_handle C t h =
     (case assert_that (NDEBUG C)
             (index h < length t \<and> version h = fst (t ! index h)) ''Invalid handle!'' of
        Inl e \<Rightarrow> Inl e
      | Inr _ \<Rightarrow>
          if index h < length t then
            Inr (if fst (t ! index h) = version h then snd (t ! index h) else None)
          else Inl UndefinedBehaviour)"


section \<open>Instantiations, table states and client sequences\<close>

text \<open>
  \<^verbatim>\<open>HandleTable<T, Handle32>\<close> with the default \<^verbatim>\<open>grow = 1024\<close> and assertions
  enabled.
\<close>

definition Handle32_inst :: Handle_inst where
  "Handle32_inst =
     \<lparr> version_type_bits = 16, index_type_bits = 32, NUM_VERSION_BITS = 12,
       NUM_INDEX_BITS = 20, MIN_VERISON = 0, MAX_VERSION = 4095, MAX_INDICES = 1048575 \<rparr>"

definition HandleTable32 :: HandleTable_inst where
  "HandleTable32 = \<lparr> Handle = Handle32_inst, grow = 1024, NDEBUG = False \<rparr>"

text \<open>
  What every table the class can hold satisfies: \<^verbatim>\<open>GrowTable\<close> alone sets the size, to
  at most \<^verbatim>\<open>MAX_INDICES\<close>, and every stored version is at most \<^verbatim>\<open>MAX_VERSION\<close>.
\<close>

definition table_inv :: "HandleTable_inst \<Rightarrow> 'a TableEntry list \<Rightarrow> bool" where
  "table_inv C t \<longleftrightarrow>
     length t \<le> MAX_INDICES (Handle C) \<and>
     list_all (\<lambda>e. fst e \<le> MAX_VERSION (Handle C)) t"

text \<open>No slot is empty.\<close>

definition full :: "'a TableEntry list \<Rightarrow> bool" where
  "full t \<longleftrightarrow> list_all (\<lambda>e. snd e \<noteq> None) t"

text \<open>The handle is valid: what \<^verbatim>\<open>ReleaseHandle\<close> and the dereference assert.\<close>

definition valid_handle :: "'a TableEntry list \<Rightarrow> handle \<Rightarrow> bool" where
  "valid_handle t h \<longleftrightarrow> index h < length t \<and> version h = fst (t ! index h)"

text \<open>A client's calls, one after the other; the first failure ends the run.\<close>

datatype 'a operation = Acquire "'a option" | Release handle

fun apply_operation ::
  "HandleTable_inst \<Rightarrow> 'a operation \<Rightarrow> 'a TableEntry list \<Rightarrow> error + 'a TableEntry list" where
  "apply_operation C (Acquire rawObject) t =
     (case AqcuireHandle C rawObject t of Inl e \<Rightarrow> Inl e | Inr (h, t') \<Rightarrow> Inr t')"
| "apply_operation C (Release h) t = ReleaseHandle C h t"

fun run ::
  "HandleTable_inst \<Rightarrow> 'a operation list \<Rightarrow> 'a TableEntry list \<Rightarrow> error + 'a TableEntry list" where
  "run C [] t = Inr t"
| "run C (x # xs) t =
     (case apply_operation C x t of Inl e \<Rightarrow> Inl e | Inr t' \<Rightarrow> run C xs t')"

text \<open>
  Release the handle and acquire again, once for each object of the list; the result is
  the list of the handles issued, in order, and the final table.
\<close>

fun release_acquire ::
  "HandleTable_inst \<Rightarrow> 'a option list \<Rightarrow> handle \<Rightarrow> 'a TableEntry list
     \<Rightarrow> error + (handle list \<times> 'a TableEntry list)" where
  "release_acquire C [] h t = Inr ([], t)"
| "release_acquire C (rawObject # rest) h t =
     (case ReleaseHandle C h t of
        Inl e \<Rightarrow> Inl e
      | Inr t1 \<Rightarrow>
         (case AqcuireHandle C rawObject t1 of
            Inl e \<Rightarrow> Inl e
          | Inr (h', t2) \<Rightarrow>
             (case release_acquire C rest h' t2 of
                Inl e \<Rightarrow> Inl e
              | Inr (hs, t3) \<Rightarrow> Inr (h' # hs, t3))))"

section \<open>The constants\<close>

lemma wrap_pred:
  fixes x M :: nat
  assumes "1 \<le> x" and "x < M"
  shows "(x mod M + M - 1) mod M = x - 1"
proof -
  have "x mod M + M - 1 = (x - 1) + M" using assms by simp
  then have "(x mod M + M - 1) mod M = (x - 1) mod M" by (simp only: mod_add_self2)
  also have "\<dots> = x - 1" using assms by simp
  finally show ?thesis .
qed

lemma shl_1U_minus_1U_Some:
  "shl_1U_minus_1U n = Some x \<longleftrightarrow> n < 32 \<and> x = 2 ^ n - 1"
proof (cases "n < 32")
  case False
  then show ?thesis by (simp add: shl_1U_minus_1U_def sub_1U_def shl_1U_def)
next
  case True
  then have lt: "(2::nat) ^ n < 2 ^ 32" by (intro power_strict_increasing) simp_all
  have pos: "(1::nat) \<le> 2 ^ n" by simp
  have "shl_1U_minus_1U n = Some (((2::nat) ^ n mod 2 ^ 32 + 2 ^ 32 - 1) mod 2 ^ 32)"
    using True unfolding shl_1U_minus_1U_def sub_1U_def shl_1U_def by simp
  also have "\<dots> = Some (2 ^ n - 1)"
    by (simp only: wrap_pred [OF pos lt])
  finally show ?thesis using True by auto
qed

lemma valid_inst_consts:
  assumes "valid_inst K"
  shows "MIN_VERISON K = 0"
    and "MAX_VERSION K = 2 ^ NUM_VERSION_BITS K - 1"
    and "MAX_INDICES K = 2 ^ NUM_INDEX_BITS K - 1"
    and "0 < NUM_VERSION_BITS K" and "0 < NUM_INDEX_BITS K"
    and "NUM_VERSION_BITS K < 32" and "NUM_INDEX_BITS K < 32"
    and "MAX_VERSION K < 2 ^ version_type_bits K"
    and "MAX_INDICES K < 2 ^ index_type_bits K"
proof -
  let ?vt = "version_type_bits K" and ?it = "index_type_bits K"
  let ?vb = "NUM_VERSION_BITS K" and ?ib = "NUM_INDEX_BITS K"
  from assms have T: "Handle_template ?vt ?it ?vb ?ib = Some K"
    by (simp add: valid_inst_def)
  then have nz: "?vb \<noteq> 0" "?ib \<noteq> 0"
    by (auto simp add: Handle_template_def split: if_splits)
  from T nz obtain mn mv mi where
    mn: "MIN_VERISON_const ?vt = Some mn" and
    mv: "MAX_VERSION_const ?vt ?vb = Some mv" and
    mi: "MAX_INDICES_const ?it ?ib = Some mi" and
    K: "K = \<lparr> version_type_bits = ?vt, index_type_bits = ?it, NUM_VERSION_BITS = ?vb,
               NUM_INDEX_BITS = ?ib, MIN_VERISON = mn, MAX_VERSION = mv, MAX_INDICES = mi \<rparr>"
    by (auto simp add: Handle_template_def split: option.splits)
  from K have sel: "MIN_VERISON K = mn" "MAX_VERSION K = mv" "MAX_INDICES K = mi"
    by (metis Handle_inst.select_convs(5), metis Handle_inst.select_convs(6),
        metis Handle_inst.select_convs(7))
  from mn have "mn = 0"
    by (auto simp add: MIN_VERISON_const_def brace_init_def split: if_splits)
  with sel show "MIN_VERISON K = 0" by simp
  from mv have mv': "?vb < 32 \<and> mv = 2 ^ ?vb - 1 \<and> mv < 2 ^ ?vt"
    by (auto simp add: MAX_VERSION_const_def brace_init_def shl_1U_minus_1U_Some
        Option.bind_eq_Some_conv split: if_splits)
  from mi have mi': "?ib < 32 \<and> mi = 2 ^ ?ib - 1 \<and> mi < 2 ^ ?it"
    by (auto simp add: MAX_INDICES_const_def brace_init_def shl_1U_minus_1U_Some
        Option.bind_eq_Some_conv split: if_splits)
  from mv' sel show "MAX_VERSION K = 2 ^ ?vb - 1" "?vb < 32" "MAX_VERSION K < 2 ^ ?vt" by simp_all
  from mi' sel show "MAX_INDICES K = 2 ^ ?ib - 1" "?ib < 32" "MAX_INDICES K < 2 ^ ?it" by simp_all
  from nz show "0 < ?vb" "0 < ?ib" by simp_all
qed

lemma valid_inst_pos:
  assumes "valid_inst K"
  shows "0 < MAX_VERSION K" and "0 < MAX_INDICES K"
proof -
  note c = valid_inst_consts [OF assms]
  have "(1::nat) < 2 ^ NUM_VERSION_BITS K" using c(4) by (intro one_less_power) simp_all
  then show "0 < MAX_VERSION K" using c(2) by simp
  have "(1::nat) < 2 ^ NUM_INDEX_BITS K" using c(5) by (intro one_less_power) simp_all
  then show "0 < MAX_INDICES K" using c(3) by simp
qed

lemma valid_inst_Handle32_inst: "valid_inst Handle32_inst"
  by (simp add: valid_inst_def Handle32_inst_def Handle_template_def MIN_VERISON_const_def
      MAX_VERSION_const_def MAX_INDICES_const_def brace_init_def shl_1U_minus_1U_def sub_1U_def shl_1U_def)

lemma Handle32_eq: "Handle32 = Some Handle32_inst"
  by (simp add: Handle32_def Handle32_inst_def Handle_template_def MIN_VERISON_const_def
      MAX_VERSION_const_def MAX_INDICES_const_def brace_init_def shl_1U_minus_1U_def sub_1U_def shl_1U_def)

text \<open>
  The constants of the 32-bit handle, and the version constants of the 64-bit handle,
  are as \<open>2 ^ bits - 1\<close> says.
\<close>

lemma Handle32_constants:
  "MIN_VERISON_const 16 = Some 0 \<and> MAX_VERSION_const 16 12 = Some (2 ^ 12 - 1)
   \<and> MAX_INDICES_const 32 20 = Some (2 ^ 20 - 1)
   \<and> MIN_VERISON_const 32 = Some 0 \<and> MAX_VERSION_const 32 24 = Some (2 ^ 24 - 1)"
  by (simp add: MIN_VERISON_const_def MAX_VERSION_const_def MAX_INDICES_const_def
      brace_init_def shl_1U_minus_1U_def sub_1U_def shl_1U_def)

text \<open>Whatever width the index type has, \<^verbatim>\<open>(1U << n) - 1U\<close> is a 32-bit value.\<close>

lemma MAX_INDICES_const_bound:
  assumes "MAX_INDICES_const w n = Some x"
  shows "x < 2 ^ 32"
proof -
  from assms have n: "n < 32" and x: "x = 2 ^ n - 1"
    by (auto simp add: MAX_INDICES_const_def Option.bind_eq_Some_conv shl_1U_minus_1U_Some
        brace_init_def split: if_splits)
  from n have "(2::nat) ^ n < 2 ^ 32" by (intro power_strict_increasing) simp_all
  with x show ?thesis by simp
qed

text \<open>
  C5 fails for the 64-bit handle, \<^verbatim>\<open>Internal::Handle<u32, u64, 24, 40>\<close>: its
  \<^verbatim>\<open>MAX_INDICES\<close> is \<^verbatim>\<open>(1U << 40) - 1U\<close>, a shift of a 32-bit operand by 40, which has no
  value, so the instantiation does not exist; and whatever a compiler takes the shift to
  be, the subtraction is 32-bit arithmetic and its result is not \<open>2 ^ 40 - 1\<close>.
\<close>

theorem Handle64_MAX_INDICES_undefined:
  "MAX_INDICES_const 64 40 = None \<and> Handle64 True = None \<and>
   (\<forall>x. sub_1U x < 2 ^ 32 \<and> sub_1U x \<noteq> 2 ^ 40 - 1)"
proof -
  have "\<forall>x. sub_1U x < 2 ^ 32 \<and> sub_1U x \<noteq> 2 ^ 40 - 1"
  proof
    fix x
    have "sub_1U x < 2 ^ 32" unfolding sub_1U_def by (rule mod_less_divisor) simp
    then show "sub_1U x < 2 ^ 32 \<and> sub_1U x \<noteq> 2 ^ 40 - 1" by simp
  qed
  moreover have "MAX_INDICES_const 64 40 = None \<and> Handle64 True = None"
    by (simp add: Handle64_def Handle_template_def MIN_VERISON_const_def MAX_VERSION_const_def
        MAX_INDICES_const_def brace_init_def shl_1U_minus_1U_def sub_1U_def shl_1U_def)
  ultimately show ?thesis by simp
qed

section \<open>Growth, the scan and the version step\<close>

declare GrowTable_loop.simps [simp del]
declare AqcuireHandle_scan.simps [simp del]

lemma GrowTable_loop_eq:
  "i \<le> n \<Longrightarrow> length t = n \<Longrightarrow>
   GrowTable_loop K i n t = take i t @ replicate (n - i) (MIN_VERISON K, None)"
proof (induction K i n t rule: GrowTable_loop.induct)
  case (1 K i newSize t)
  show ?case
  proof (cases "i < newSize")
    case False
    then show ?thesis using "1.prems" by (subst GrowTable_loop.simps) simp
  next
    case True
    let ?e = "(MIN_VERISON K, None :: 'a option)"
    from True "1.prems" have il: "i < length t" by simp
    have "GrowTable_loop K i newSize t = GrowTable_loop K (i + 1) newSize (t[i := ?e])"
      by (subst GrowTable_loop.simps) (simp add: True)
    also have "\<dots> = take (i + 1) (t[i := ?e]) @ replicate (newSize - (i + 1)) ?e"
      using True "1.prems" by (intro "1.IH") simp_all
    also have "take (i + 1) (t[i := ?e]) = take i t @ [?e]"
      using il by (simp add: take_Suc_conv_app_nth)
    also have "(take i t @ [?e]) @ replicate (newSize - (i + 1)) ?e
                 = take i t @ replicate (Suc (newSize - (i + 1))) ?e"
      by simp
    also have "Suc (newSize - (i + 1)) = newSize - i" using True by simp
    finally show ?thesis .
  qed
qed

lemma GrowTable_result:
  assumes "length t \<le> MAX_INDICES (Handle C)"
    and "length t + grow C < 2 ^ index_type_bits (Handle C)"
    and "NDEBUG C \<or> length t < MAX_INDICES (Handle C)"
  shows "GrowTable C t =
           Inr (t @ replicate (min (length t + grow C) (MAX_INDICES (Handle C)) - length t)
                      (MIN_VERISON (Handle C), None))"
proof -
  let ?n = "min (length t + grow C) (MAX_INDICES (Handle C))"
  have n: "length t \<le> ?n" using assms(1) by simp
  have r: "resize ?n t = t @ replicate (?n - length t) (0, None)"
    using n by (simp add: resize_def)
  have "GrowTable_loop (Handle C) (length t) ?n (resize ?n t)
          = take (length t) (resize ?n t) @ replicate (?n - length t) (MIN_VERISON (Handle C), None)"
    using n by (intro GrowTable_loop_eq) (simp_all add: r)
  also have "take (length t) (resize ?n t) = t" by (simp add: r)
  finally have "GrowTable_loop (Handle C) (length t) ?n (resize ?n t)
          = t @ replicate (?n - length t) (MIN_VERISON (Handle C), None)" .
  then show ?thesis using assms(2,3)
    by (auto simp add: GrowTable_def assert_that_def Let_def)
qed

lemma GrowTable_capacity_reached:
  assumes "\<not> NDEBUG C" and "MAX_INDICES (Handle C) \<le> length t"
  shows "GrowTable C t = Inl (AssertionFailed ''Max table capacity reached!'')"
  using assms by (simp add: GrowTable_def assert_that_def Let_def)

lemma scan_none:
  "i \<le> length t \<Longrightarrow> (\<forall>j. i \<le> j \<and> j < length t \<longrightarrow> snd (t ! j) \<noteq> None) \<Longrightarrow>
   AqcuireHandle_scan C rawObject i t = Inl (length t)"
proof (induction C rawObject i t rule: AqcuireHandle_scan.induct)
  case (1 C rawObject i t)
  show ?case
  proof (cases "i < length t")
    case False
    then show ?thesis using "1.prems" by (subst AqcuireHandle_scan.simps) simp
  next
    case True
    with "1.prems" have occ: "snd (t ! i) \<noteq> None" by simp
    have "AqcuireHandle_scan C rawObject i t = AqcuireHandle_scan C rawObject (i + 1) t"
      by (subst AqcuireHandle_scan.simps) (simp add: True occ)
    also have "\<dots> = Inl (length t)"
      using True occ "1.prems" by (intro "1.IH") simp_all
    finally show ?thesis .
  qed
qed

lemma scan_first_empty:
  "i0 \<le> i \<Longrightarrow> i < length t \<Longrightarrow> snd (t ! i) = None \<Longrightarrow>
   (\<forall>j. i0 \<le> j \<and> j < i \<longrightarrow> snd (t ! j) \<noteq> None) \<Longrightarrow>
   AqcuireHandle_scan C rawObject i0 t =
     Inr (Handle_ctor (Handle C) i (next_version (Handle C) (fst (t ! i))),
          t[i := (next_version (Handle C) (fst (t ! i)), rawObject)])"
proof (induction C rawObject i0 t rule: AqcuireHandle_scan.induct)
  case (1 C rawObject i0 t)
  show ?case
  proof (cases "i0 = i")
    case True
    then show ?thesis using "1.prems"
      by (subst AqcuireHandle_scan.simps) (simp add: Let_def)
  next
    case False
    with "1.prems" have lt: "i0 < i" by simp
    with "1.prems" have occ: "snd (t ! i0) \<noteq> None" and il: "i0 < length t" by simp_all
    have "AqcuireHandle_scan C rawObject i0 t = AqcuireHandle_scan C rawObject (i0 + 1) t"
      by (subst AqcuireHandle_scan.simps) (simp add: il occ)
    also have "\<dots> = Inr (Handle_ctor (Handle C) i (next_version (Handle C) (fst (t ! i))),
          t[i := (next_version (Handle C) (fst (t ! i)), rawObject)])"
      using il occ lt "1.prems" by (intro "1.IH") simp_all
    finally show ?thesis .
  qed
qed

lemma next_version_cases:
  assumes "valid_inst K"
  shows "v < MAX_VERSION K \<Longrightarrow> next_version K v = v + 1"
    and "v = MAX_VERSION K \<Longrightarrow> next_version K v = MIN_VERISON K"
proof -
  note c = valid_inst_consts [OF assms]
  { assume v: "v < MAX_VERSION K"
    then have "v + 1 < 2 ^ version_type_bits K" using c(8) by simp
    then have p: "version_plus_1 K v = v + 1" by (simp add: version_plus_1_def)
    show "next_version K v = v + 1"
      using v \<open>v + 1 < 2 ^ version_type_bits K\<close> by (simp add: next_version_def p) }
  { assume v: "v = MAX_VERSION K"
    have z: "MIN_VERISON K mod 2 ^ version_type_bits K = MIN_VERISON K" by (simp add: c(1))
    show "next_version K v = MIN_VERISON K"
    proof (cases "version_type_bits K < 32")
      case True
      then show ?thesis using v z by (simp add: next_version_def version_plus_1_def)
    next
      case False
      then have "NUM_VERSION_BITS K < version_type_bits K" using c(6) by simp
      then have "(2::nat) ^ NUM_VERSION_BITS K < 2 ^ version_type_bits K"
        by (intro power_strict_increasing) simp_all
      moreover have "v + 1 = 2 ^ NUM_VERSION_BITS K" using v c(2) by simp
      ultimately have "version_plus_1 K v = v + 1" using False
        by (simp add: version_plus_1_def)
      then show ?thesis using v z by (simp add: next_version_def)
    qed }
qed

lemma next_version_mod:
  assumes "valid_inst K" and "v \<le> MAX_VERSION K"
  shows "next_version K v = (v + 1) mod (MAX_VERSION K + 1)"
proof (cases "v = MAX_VERSION K")
  case True
  then show ?thesis
    using next_version_cases(2) [OF assms(1) True] valid_inst_consts(1) [OF assms(1)] by simp
next
  case False
  with assms(2) have "v < MAX_VERSION K" by simp
  then show ?thesis using next_version_cases(1) [OF assms(1)] by simp
qed

lemma next_version_le:
  assumes "valid_inst K"
  shows "next_version K v \<le> MAX_VERSION K"
proof (cases "version_plus_1 K v > MAX_VERSION K")
  case True
  then show ?thesis by (simp add: next_version_def valid_inst_consts(1) [OF assms])
next
  case False
  then have "next_version K v = version_plus_1 K v mod 2 ^ version_type_bits K"
    by (simp add: next_version_def)
  also have "\<dots> \<le> version_plus_1 K v" by (rule mod_less_eq_dividend)
  finally show ?thesis using False by simp
qed


section \<open>Acquisition and release on a table\<close>

lemma Handle_ctor_id:
  assumes "valid_inst K" and "i \<le> MAX_INDICES K" and "v \<le> MAX_VERSION K"
  shows "Handle_ctor K i v = \<lparr> index = i, version = v \<rparr>"
proof -
  note c = valid_inst_consts [OF assms(1)]
  have "0 < (2::nat) ^ NUM_INDEX_BITS K" and "0 < (2::nat) ^ NUM_VERSION_BITS K" by simp_all
  then have "i < 2 ^ NUM_INDEX_BITS K" and "v < 2 ^ NUM_VERSION_BITS K"
    using assms(2,3) c(2,3) by linarith+
  then show ?thesis by (simp add: Handle_ctor_def)
qed

lemma full_nth: "full t \<longleftrightarrow> (\<forall>j<length t. snd (t ! j) \<noteq> None)"
  by (simp add: full_def list_all_length)

lemma first_empty_slot:
  assumes "\<not> full t"
  shows "\<exists>i<length t. snd (t ! i) = None \<and> (\<forall>j<i. snd (t ! j) \<noteq> None)"
proof -
  let ?P = "\<lambda>j. j < length t \<and> snd (t ! j) = None"
  from assms obtain j where j: "?P j" by (auto simp add: full_nth)
  define i where "i = (LEAST j. ?P j)"
  have Pi: "?P i" unfolding i_def using j by (rule LeastI)
  have "\<forall>k<i. snd (t ! k) \<noteq> None"
  proof (intro allI impI)
    fix k assume k: "k < i"
    then have "\<not> ?P k" unfolding i_def by (rule not_less_Least)
    moreover have "k < length t" using k Pi by simp
    ultimately show "snd (t ! k) \<noteq> None" by simp
  qed
  with Pi show ?thesis by blast
qed

lemma AqcuireHandle_reuse:
  assumes "valid_inst (Handle C)" and "length t \<le> MAX_INDICES (Handle C)"
    and "i < length t" and "snd (t ! i) = None" and "\<forall>j<i. snd (t ! j) \<noteq> None"
  shows "AqcuireHandle C rawObject t =
           Inr (\<lparr> index = i, version = next_version (Handle C) (fst (t ! i)) \<rparr>,
                t[i := (next_version (Handle C) (fst (t ! i)), rawObject)])"
proof -
  have "AqcuireHandle_scan C rawObject 0 t =
          Inr (Handle_ctor (Handle C) i (next_version (Handle C) (fst (t ! i))),
               t[i := (next_version (Handle C) (fst (t ! i)), rawObject)])"
    using assms(3,4,5) by (intro scan_first_empty) simp_all
  moreover have "Handle_ctor (Handle C) i (next_version (Handle C) (fst (t ! i)))
                   = \<lparr> index = i, version = next_version (Handle C) (fst (t ! i)) \<rparr>"
    using assms(1,2,3) by (intro Handle_ctor_id next_version_le) simp_all
  ultimately show ?thesis by (simp add: AqcuireHandle_def)
qed

lemma AqcuireHandle_full:
  assumes "valid_inst (Handle C)" and "full t"
    and "length t \<le> MAX_INDICES (Handle C)"
    and "length t + grow C < 2 ^ index_type_bits (Handle C)"
    and "NDEBUG C \<or> length t < MAX_INDICES (Handle C)"
  shows "AqcuireHandle C rawObject t =
           (if length t < min (length t + grow C) (MAX_INDICES (Handle C)) then
              Inr (\<lparr> index = length t, version = 0 \<rparr>,
                   t @ (1, rawObject) #
                       replicate (min (length t + grow C) (MAX_INDICES (Handle C)) - length t - 1)
                         (0, None))
            else Inl UndefinedBehaviour)"
proof -
  let ?K = "Handle C"
  define n where "n = min (length t + grow C) (MAX_INDICES ?K)"
  define t1 :: "'a TableEntry list" where "t1 = t @ replicate (n - length t) (0, None)"
  note c = valid_inst_consts [OF assms(1)]
  have n: "length t \<le> n" using assms(3) by (simp add: n_def)
  then have len: "length t1 = n" by (simp add: t1_def)
  have scan: "AqcuireHandle_scan C rawObject 0 t = Inl (length t)"
    using assms(2) by (intro scan_none) (simp_all add: full_nth)
  have g: "GrowTable C t = Inr t1"
    using GrowTable_result [OF assms(3,4,5)] c(1) by (simp add: t1_def n_def)
  have A: "AqcuireHandle C rawObject t =
             (if length t < n then
                Inr (Handle_ctor ?K (length t) (fst (t1 ! length t)),
                     t1[length t := ((fst (t1 ! length t) + 1) mod 2 ^ version_type_bits ?K,
                                     rawObject)])
              else Inl UndefinedBehaviour)"
    by (simp add: AqcuireHandle_def scan g len Let_def)
  have "AqcuireHandle C rawObject t =
          (if length t < n then
             Inr (\<lparr> index = length t, version = 0 \<rparr>,
                  t @ (1, rawObject) # replicate (n - length t - 1) (0, None))
           else Inl UndefinedBehaviour)"
  proof (cases "length t < n")
    case False
    then show ?thesis using A by simp
  next
    case True
    then obtain m where m: "n - length t = Suc m" by (metis Suc_diff_Suc)
    have t1: "t1 = t @ (0, None) # replicate m (0, None)" by (simp add: t1_def m)
    have "1 < (2::nat) ^ version_type_bits ?K"
      using valid_inst_pos(1) [OF assms(1)] c(8) by simp
    then have one: "Suc 0 mod 2 ^ version_type_bits ?K = 1" by (metis One_nat_def mod_less)
    have h: "Handle_ctor ?K (length t) 0 = \<lparr> index = length t, version = 0 \<rparr>"
      using assms(1,3) by (intro Handle_ctor_id) simp_all
    have m'': "n - Suc (length t) = m" using m by simp
    show ?thesis using True one h by (simp add: A t1 m'')
  qed
  then show ?thesis by (simp only: n_def)
qed

lemma AqcuireHandle_capacity_reached:
  assumes "full t" and "MAX_INDICES (Handle C) \<le> length t" and "\<not> NDEBUG C"
  shows "AqcuireHandle C rawObject t = Inl (AssertionFailed ''Max table capacity reached!'')"
proof -
  have "AqcuireHandle_scan C rawObject 0 t = Inl (length t)"
    using assms(1) by (intro scan_none) (simp_all add: full_nth)
  then show ?thesis
    using GrowTable_capacity_reached [OF assms(3,2)] by (simp add: AqcuireHandle_def)
qed

lemma table_inv_update:
  assumes "table_inv C t" and "v \<le> MAX_VERSION (Handle C)"
  shows "table_inv C (t[i := (v, p)])"
proof -
  have "set (t[i := (v, p)]) \<subseteq> insert (v, p) (set t)" by (rule set_update_subset_insert)
  then show ?thesis using assms by (auto simp add: table_inv_def list_all_iff)
qed

lemma table_inv_version:
  assumes "table_inv C t" and "i < length t"
  shows "fst (t ! i) \<le> MAX_VERSION (Handle C)"
  using assms by (simp add: table_inv_def list_all_length)

lemma ReleaseHandle_valid:
  assumes "valid_handle t h"
  shows "ReleaseHandle C h t = Inr (t[index h := (fst (t ! index h), None)])"
  using assms by (simp add: ReleaseHandle_def valid_handle_def assert_that_def)

section \<open>Construction\<close>

lemma HandleTable32_fresh:
  "HandleTable HandleTable32 = (Inr (replicate 1024 (0, None)) :: error + 'a TableEntry list)"
  using GrowTable_result [of "[] :: 'a TableEntry list" HandleTable32]
  by (simp add: HandleTable_def HandleTable32_def Handle32_inst_def)

lemma replicate_1024: "replicate 1024 x = x # replicate 1023 x"
proof -
  have "(1024::nat) = Suc 1023" by simp
  then have "replicate 1024 x = replicate (Suc 1023) x" by (simp only:)
  then show ?thesis by (simp only: replicate_Suc)
qed

lemma HandleTable_table_inv:
  fixes t :: "'a TableEntry list"
  assumes "valid_inst (Handle C)" and "grow C < 2 ^ index_type_bits (Handle C)"
    and "HandleTable C = Inr t"
  shows "table_inv C t"
proof -
  have "0 < MAX_INDICES (Handle C)" by (rule valid_inst_pos(2) [OF assms(1)])
  then have "HandleTable C = Inr (replicate (min (grow C) (MAX_INDICES (Handle C)))
                                    (MIN_VERISON (Handle C), None :: 'a option))"
    using GrowTable_result [of "[] :: 'a TableEntry list" C] assms(2)
    by (simp add: HandleTable_def)
  with assms(3) have "t = replicate (min (grow C) (MAX_INDICES (Handle C)))
                            (MIN_VERISON (Handle C), None)" by simp
  then show ?thesis
    by (simp add: table_inv_def list_all_iff valid_inst_consts(1) [OF assms(1)])
qed

text \<open>
  C10. A freshly constructed table holds \<open>min grow MAX_INDICES\<close> slots, each
  \<open>(MIN_VERISON, empty)\<close>: the constructor performs one growth step on the empty vector.
  The growth increment is a \<^verbatim>\<open>size_t\<close> value.
\<close>

theorem HandleTable_initial_capacity:
  assumes "valid_inst (Handle C)" and "grow C < 2 ^ index_type_bits (Handle C)"
  shows "HandleTable C =
           Inr (replicate (min (grow C) (MAX_INDICES (Handle C))) (MIN_VERISON (Handle C), None))"
proof -
  have "0 < MAX_INDICES (Handle C)"
    by (rule valid_inst_pos(2) [OF assms(1)])
  then show ?thesis
    using GrowTable_result [of "[]" C] assms(2) by (simp add: HandleTable_def)
qed

theorem HandleTable_initial_capacity_witness:
  "valid_inst (Handle HandleTable32) \<and>
   grow HandleTable32 < 2 ^ index_type_bits (Handle HandleTable32) \<and>
   HandleTable HandleTable32 = (Inr (replicate 1024 (0, None)) :: error + nat TableEntry list)"
  using HandleTable_initial_capacity [of HandleTable32] valid_inst_Handle32_inst
  by (simp add: HandleTable32_def Handle32_inst_def)

section \<open>Release\<close>

text \<open>
  C4. Releasing a valid handle changes only the pointer of the slot at the handle's
  index, which becomes empty: the version of that slot, every other slot and the length
  of the table stay as they were.
\<close>

theorem ReleaseHandle_frame:
  assumes "valid_handle t h"
  shows "\<exists>t'. ReleaseHandle C h t = Inr t' \<and>
           length t' = length t \<and>
           fst (t' ! index h) = fst (t ! index h) \<and>
           snd (t' ! index h) = None \<and>
           (\<forall>j<length t. j \<noteq> index h \<longrightarrow> t' ! j = t ! j)"
proof -
  from assms have i: "index h < length t" by (simp add: valid_handle_def)
  have "ReleaseHandle C h t = Inr (t[index h := (fst (t ! index h), None)])"
    by (rule ReleaseHandle_valid [OF assms])
  then show ?thesis using i by simp
qed

theorem ReleaseHandle_frame_witness:
  "valid_handle ((1, Some (7::nat)) # (2, Some 8) # replicate 1022 (0, None))
     \<lparr> index = 1, version = 2 \<rparr> \<and>
   ReleaseHandle HandleTable32 \<lparr> index = 1, version = 2 \<rparr>
       ((1, Some (7::nat)) # (2, Some 8) # replicate 1022 (0, None))
     = Inr ((1, Some 7) # (2, None) # replicate 1022 (0, None))"
  using ReleaseHandle_frame [of "(1, Some (7::nat)) # (2, Some 8) # replicate 1022 (0, None)"
      "\<lparr> index = 1, version = 2 \<rparr>" HandleTable32]
  by (simp add: valid_handle_def ReleaseHandle_def assert_that_def HandleTable32_def)

text \<open>
  C2, as stated, fails. On a fresh default table of \<^verbatim>\<open>Handle32\<close> the first acquisition
  returns the handle (0, 1); after \<^verbatim>\<open>ReleaseHandle\<close> of it the slot still has version 1
  and \<^verbatim>\<open>IsExpired\<close> of the released handle is false.
\<close>

theorem ReleaseHandle_expired_counterexample:
  "HandleTable HandleTable32 = (Inr (replicate 1024 (0, None)) :: error + nat TableEntry list) \<and>
   AqcuireHandle HandleTable32 (Some 7) (replicate 1024 (0, None))
     = Inr (\<lparr> index = 0, version = 1 \<rparr>, (1, Some (7::nat)) # replicate 1023 (0, None)) \<and>
   ReleaseHandle HandleTable32 \<lparr> index = 0, version = 1 \<rparr>
       ((1, Some (7::nat)) # replicate 1023 (0, None))
     = Inr ((1, None) # replicate 1023 (0, None)) \<and>
   IsExpired ((1, None :: nat option) # replicate 1023 (0, None)) \<lparr> index = 0, version = 1 \<rparr>
     = Inr False"
  by (simp add: HandleTable32_fresh)
     (simp add: replicate_1024 AqcuireHandle_def AqcuireHandle_scan.simps ReleaseHandle_def
        IsExpired_def assert_that_def next_version_def version_plus_1_def Handle_ctor_def
        HandleTable32_def Handle32_inst_def Let_def)

text \<open>
  C2, amended. After the release of a valid handle the version of its slot is unchanged,
  \<^verbatim>\<open>IsExpired\<close> of the handle is still false, and dereferencing it yields the empty
  result.
\<close>

theorem ReleaseHandle_keeps_version:
  assumes "valid_handle t h"
  shows "\<exists>t'. ReleaseHandle C h t = Inr t' \<and>
           fst (t' ! index h) = fst (t ! index h) \<and>
           IsExpired t' h = Inr False \<and>
           operator_handle C t' h = Inr None"
proof -
  from assms have i: "index h < length t" and v: "version h = fst (t ! index h)"
    by (simp_all add: valid_handle_def)
  have "ReleaseHandle C h t = Inr (t[index h := (fst (t ! index h), None)])"
    by (rule ReleaseHandle_valid [OF assms])
  then show ?thesis using i v
    by (simp add: IsExpired_def operator_handle_def assert_that_def)
qed

theorem ReleaseHandle_keeps_version_witness:
  "valid_handle ((1, Some (7::nat)) # (2, Some 8) # replicate 1022 (0, None))
     \<lparr> index = 1, version = 2 \<rparr> \<and>
   (\<exists>t'. ReleaseHandle HandleTable32 \<lparr> index = 1, version = 2 \<rparr>
            ((1, Some (7::nat)) # (2, Some 8) # replicate 1022 (0, None)) = Inr t' \<and>
         fst (t' ! 1) = 2 \<and>
         IsExpired t' \<lparr> index = 1, version = 2 \<rparr> = Inr False \<and>
         operator_handle HandleTable32 t' \<lparr> index = 1, version = 2 \<rparr> = Inr None)"
  using ReleaseHandle_keeps_version
      [of "(1, Some (7::nat)) # (2, Some 8) # replicate 1022 (0, None)"
          "\<lparr> index = 1, version = 2 \<rparr>" HandleTable32]
  by (simp add: valid_handle_def)

section \<open>Dereferencing a stale handle\<close>

text \<open>
  C3, as stated, fails. On a fresh default table of \<^verbatim>\<open>Handle32\<close>, with assertions
  enabled: acquire (handle (0, 1)), release, acquire again (handle (0, 2)); dereferencing
  the stale handle (0, 1) ends in the assertion \<^verbatim>\<open>"Invalid handle!"\<close>.
\<close>

theorem operator_handle_stale_counterexample:
  "HandleTable HandleTable32 = (Inr (replicate 1024 (0, None)) :: error + nat TableEntry list) \<and>
   AqcuireHandle HandleTable32 (Some 7) (replicate 1024 (0, None))
     = Inr (\<lparr> index = 0, version = 1 \<rparr>, (1, Some (7::nat)) # replicate 1023 (0, None)) \<and>
   ReleaseHandle HandleTable32 \<lparr> index = 0, version = 1 \<rparr>
       ((1, Some (7::nat)) # replicate 1023 (0, None))
     = Inr ((1, None) # replicate 1023 (0, None)) \<and>
   AqcuireHandle HandleTable32 (Some 8) ((1, None) # replicate 1023 (0, None))
     = Inr (\<lparr> index = 0, version = 2 \<rparr>, (2, Some (8::nat)) # replicate 1023 (0, None)) \<and>
   operator_handle HandleTable32 ((2, Some (8::nat)) # replicate 1023 (0, None))
       \<lparr> index = 0, version = 1 \<rparr>
     = Inl (AssertionFailed ''Invalid handle!'')"
  by (simp add: HandleTable32_fresh)
     (simp add: replicate_1024 AqcuireHandle_def AqcuireHandle_scan.simps ReleaseHandle_def
        operator_handle_def assert_that_def next_version_def version_plus_1_def Handle_ctor_def
        HandleTable32_def Handle32_inst_def Let_def)

text \<open>
  C3, amended. Dereferencing a stale handle whose index is in bounds ends in the
  assertion \<^verbatim>\<open>"Invalid handle!"\<close> when assertions are enabled, and yields the empty
  result when they are compiled out.
\<close>

theorem operator_handle_stale:
  assumes "index h < length t" and "version h \<noteq> fst (t ! index h)"
  shows "operator_handle C t h =
           (if NDEBUG C then Inr None else Inl (AssertionFailed ''Invalid handle!''))"
  using assms by (auto simp add: operator_handle_def assert_that_def)

theorem operator_handle_stale_witness:
  "index \<lparr> index = 0, version = 1 \<rparr> < length ((2, Some (8::nat)) # replicate 1023 (0, None)) \<and>
   version \<lparr> index = 0, version = 1 \<rparr>
     \<noteq> fst (((2, Some (8::nat)) # replicate 1023 (0, None)) ! 0) \<and>
   operator_handle (HandleTable32 \<lparr> NDEBUG := True \<rparr>)
       ((2, Some (8::nat)) # replicate 1023 (0, None)) \<lparr> index = 0, version = 1 \<rparr> = Inr None \<and>
   operator_handle HandleTable32
       ((2, Some (8::nat)) # replicate 1023 (0, None)) \<lparr> index = 0, version = 1 \<rparr>
     = Inl (AssertionFailed ''Invalid handle!'')"
  using operator_handle_stale [of "\<lparr> index = 0, version = 1 \<rparr>"
          "(2, Some (8::nat)) # replicate 1023 (0, None)" "HandleTable32 \<lparr> NDEBUG := True \<rparr>"]
        operator_handle_stale [of "\<lparr> index = 0, version = 1 \<rparr>"
          "(2, Some (8::nat)) # replicate 1023 (0, None)" HandleTable32]
  by (simp add: HandleTable32_def)

lemma release_then_acquire:
  assumes "valid_inst (Handle C)" and "table_inv C t" and "valid_handle t h"
    and "\<forall>j<index h. snd (t ! j) \<noteq> None"
  shows "ReleaseHandle C h t = Inr (t[index h := (version h, None)])"
    and "AqcuireHandle C rawObject (t[index h := (version h, None)]) =
           Inr (\<lparr> index = index h,
                  version = (version h + 1) mod (MAX_VERSION (Handle C) + 1) \<rparr>,
                t[index h := ((version h + 1) mod (MAX_VERSION (Handle C) + 1), rawObject)])"
proof -
  let ?i = "index h" and ?v = "version h"
  let ?t1 = "t[?i := (?v, None)]"
  from assms(3) have i: "?i < length t" and v: "?v = fst (t ! ?i)"
    by (simp_all add: valid_handle_def)
  show "ReleaseHandle C h t = Inr ?t1"
    using ReleaseHandle_valid [OF assms(3)] v by simp
  have vle: "?v \<le> MAX_VERSION (Handle C)"
    using table_inv_version [OF assms(2) i] v by simp
  have len: "length ?t1 \<le> MAX_INDICES (Handle C)"
    using assms(2) by (simp add: table_inv_def)
  have "AqcuireHandle C rawObject ?t1 =
          Inr (\<lparr> index = ?i, version = next_version (Handle C) (fst (?t1 ! ?i)) \<rparr>,
               ?t1[?i := (next_version (Handle C) (fst (?t1 ! ?i)), rawObject)])"
    using assms(1) len i assms(4) by (intro AqcuireHandle_reuse) simp_all
  moreover have "fst (?t1 ! ?i) = ?v" using i by simp
  moreover have "next_version (Handle C) ?v = (?v + 1) mod (MAX_VERSION (Handle C) + 1)"
    by (rule next_version_mod [OF assms(1) vle])
  ultimately show "AqcuireHandle C rawObject ?t1 =
           Inr (\<lparr> index = ?i, version = (?v + 1) mod (MAX_VERSION (Handle C) + 1) \<rparr>,
                t[?i := ((?v + 1) mod (MAX_VERSION (Handle C) + 1), rawObject)])"
    by simp
qed

lemma succ_mod_neq:
  fixes v M :: nat
  assumes "v \<le> M" and "0 < M"
  shows "(v + 1) mod (M + 1) \<noteq> v"
proof (cases "v = M")
  case True
  then show ?thesis using assms(2) by simp
next
  case False
  with assms(1) have "v + 1 < M + 1" by simp
  then have "(v + 1) mod (M + 1) = v + 1" by (rule mod_less)
  then show ?thesis by simp
qed

section \<open>First fit and reuse\<close>

text \<open>
  C6. On a table with an empty slot, \<^verbatim>\<open>AqcuireHandle\<close> occupies the empty slot of
  smallest index, returns a handle with that index and leaves the length unchanged. After
  the release of a valid handle whose slot is then the first empty one, the next
  acquisition returns the same index with the version one higher modulo
  \<open>MAX_VERSION + 1\<close>, which differs from the released version; the old handle is then
  expired and the new one is not.
\<close>

theorem AqcuireHandle_first_fit:
  assumes "valid_inst (Handle C)" and "table_inv C t"
  shows "(\<forall>i<length t. snd (t ! i) = None \<and> (\<forall>j<i. snd (t ! j) \<noteq> None) \<longrightarrow>
            (\<exists>h t'. AqcuireHandle C rawObject t = Inr (h, t') \<and>
                     index h = i \<and> length t' = length t \<and>
                     t' = t[i := (version h, rawObject)] \<and>
                     IsExpired t' h = Inr False \<and> operator_handle C t' h = Inr rawObject))
       \<and> (\<forall>h. valid_handle t h \<and> (\<forall>j<index h. snd (t ! j) \<noteq> None) \<longrightarrow>
            (\<exists>t1 h' t2. ReleaseHandle C h t = Inr t1 \<and>
                         AqcuireHandle C rawObject t1 = Inr (h', t2) \<and>
                         index h' = index h \<and>
                         version h' = (version h + 1) mod (MAX_VERSION (Handle C) + 1) \<and>
                         version h' \<noteq> version h \<and>
                         IsExpired t2 h = Inr True \<and> IsExpired t2 h' = Inr False))"
proof (intro conjI allI impI)
  fix i
  assume i: "i < length t" and e: "snd (t ! i) = None \<and> (\<forall>j<i. snd (t ! j) \<noteq> None)"
  have len: "length t \<le> MAX_INDICES (Handle C)" using assms(2) by (simp add: table_inv_def)
  have "AqcuireHandle C rawObject t =
          Inr (\<lparr> index = i, version = next_version (Handle C) (fst (t ! i)) \<rparr>,
               t[i := (next_version (Handle C) (fst (t ! i)), rawObject)])"
    using assms(1) len i e by (intro AqcuireHandle_reuse) simp_all
  then show "\<exists>h t'. AqcuireHandle C rawObject t = Inr (h, t') \<and>
                     index h = i \<and> length t' = length t \<and>
                     t' = t[i := (version h, rawObject)] \<and>
                     IsExpired t' h = Inr False \<and> operator_handle C t' h = Inr rawObject"
    using i by (simp add: IsExpired_def operator_handle_def assert_that_def)
next
  fix h
  assume h: "valid_handle t h \<and> (\<forall>j<index h. snd (t ! j) \<noteq> None)"
  let ?v' = "(version h + 1) mod (MAX_VERSION (Handle C) + 1)"
  from h have i: "index h < length t" and v: "version h = fst (t ! index h)"
    by (simp_all add: valid_handle_def)
  from h have vh: "valid_handle t h" and occ: "\<forall>j<index h. snd (t ! j) \<noteq> None" by simp_all
  note ra = release_then_acquire [OF assms vh occ]
  have vle: "version h \<le> MAX_VERSION (Handle C)"
    using table_inv_version [OF assms(2) i] v by simp
  have ne: "?v' \<noteq> version h"
    by (rule succ_mod_neq [OF vle valid_inst_pos(1) [OF assms(1)]])
  have "IsExpired (t[index h := (?v', rawObject)]) h = Inr True"
    using i ne by (simp add: IsExpired_def)
  moreover have "IsExpired (t[index h := (?v', rawObject)])
                   \<lparr> index = index h, version = ?v' \<rparr> = Inr False"
    using i by (simp add: IsExpired_def)
  ultimately show "\<exists>t1 h' t2. ReleaseHandle C h t = Inr t1 \<and>
                         AqcuireHandle C rawObject t1 = Inr (h', t2) \<and>
                         index h' = index h \<and>
                         version h' = ?v' \<and>
                         version h' \<noteq> version h \<and>
                         IsExpired t2 h = Inr True \<and> IsExpired t2 h' = Inr False"
    using ra h ne by simp
qed

theorem AqcuireHandle_first_fit_witness:
  "valid_inst (Handle HandleTable32) \<and>
   table_inv HandleTable32 ((1, Some (7::nat)) # (3, None) # replicate 1022 (0, None)) \<and>
   table_inv HandleTable32 ((4095, Some (7::nat)) # replicate 1023 (0, None)) \<and>
   valid_handle ((4095, Some (7::nat)) # replicate 1023 (0, None))
     \<lparr> index = 0, version = 4095 \<rparr> \<and>
   AqcuireHandle HandleTable32 (Some 9) ((1, Some (7::nat)) # (3, None) # replicate 1022 (0, None))
     = Inr (\<lparr> index = 1, version = 4 \<rparr>, (1, Some 7) # (4, Some 9) # replicate 1022 (0, None)) \<and>
   (\<exists>h t'. AqcuireHandle HandleTable32 (Some 9)
             ((1, Some (7::nat)) # (3, None) # replicate 1022 (0, None)) = Inr (h, t') \<and>
           index h = 1 \<and> IsExpired t' h = Inr False \<and>
           operator_handle HandleTable32 t' h = Inr (Some 9)) \<and>
   ReleaseHandle HandleTable32 \<lparr> index = 0, version = 4095 \<rparr>
       ((4095, Some (7::nat)) # replicate 1023 (0, None))
     = Inr ((4095, None) # replicate 1023 (0, None)) \<and>
   AqcuireHandle HandleTable32 (Some 9) ((4095, None) # replicate 1023 (0, None))
     = Inr (\<lparr> index = 0, version = 0 \<rparr>, (0, Some (9::nat)) # replicate 1023 (0, None)) \<and>
   (\<exists>t1 h' t2. ReleaseHandle HandleTable32 \<lparr> index = 0, version = 4095 \<rparr>
                 ((4095, Some (7::nat)) # replicate 1023 (0, None)) = Inr t1 \<and>
               AqcuireHandle HandleTable32 (Some 9) t1 = Inr (h', t2) \<and>
               index h' = 0 \<and> version h' = 0 \<and>
               IsExpired t2 \<lparr> index = 0, version = 4095 \<rparr> = Inr True \<and>
               IsExpired t2 h' = Inr False)"
proof -
  let ?t1 = "(1, Some (7::nat)) # (3, None) # replicate 1022 (0, None)"
  let ?t2 = "(4095, Some (7::nat)) # replicate 1023 (0, None)"
  let ?h = "\<lparr> index = 0, version = 4095 \<rparr>"
  have v: "valid_inst (Handle HandleTable32)"
    using valid_inst_Handle32_inst by (simp add: HandleTable32_def)
  have inv1: "table_inv HandleTable32 ?t1"
    by (simp add: table_inv_def list_all_iff HandleTable32_def Handle32_inst_def)
  have inv2: "table_inv HandleTable32 ?t2"
    by (simp add: table_inv_def list_all_iff HandleTable32_def Handle32_inst_def)
  have vh: "valid_handle ?t2 ?h" by (simp add: valid_handle_def)
  have M: "MAX_VERSION (Handle HandleTable32) = 4095"
    by (simp add: HandleTable32_def Handle32_inst_def)
  have 1: "AqcuireHandle HandleTable32 (Some 9) ?t1
      = Inr (\<lparr> index = 1, version = 4 \<rparr>, (1, Some 7) # (4, Some 9) # replicate 1022 (0, None))"
    by (simp add: AqcuireHandle_def AqcuireHandle_scan.simps next_version_def
        version_plus_1_def Handle_ctor_def HandleTable32_def Handle32_inst_def Let_def)
  have 2: "\<exists>h t'. AqcuireHandle HandleTable32 (Some 9) ?t1 = Inr (h, t') \<and>
           index h = 1 \<and> IsExpired t' h = Inr False \<and>
           operator_handle HandleTable32 t' h = Inr (Some 9)"
    using AqcuireHandle_first_fit [OF v inv1, of "Some 9", THEN conjunct1, rule_format, of 1]
    by auto
  have 3: "ReleaseHandle HandleTable32 ?h ?t2 = Inr ((4095, None) # replicate 1023 (0, None))"
    by (simp add: ReleaseHandle_def assert_that_def HandleTable32_def)
  have 4: "AqcuireHandle HandleTable32 (Some 9) ((4095, None) # replicate 1023 (0, None))
      = Inr (\<lparr> index = 0, version = 0 \<rparr>, (0, Some (9::nat)) # replicate 1023 (0, None))"
    by (simp add: AqcuireHandle_def AqcuireHandle_scan.simps next_version_def
        version_plus_1_def Handle_ctor_def HandleTable32_def Handle32_inst_def Let_def)
  have 5: "\<exists>t1 h' t2. ReleaseHandle HandleTable32 ?h ?t2 = Inr t1 \<and>
               AqcuireHandle HandleTable32 (Some 9) t1 = Inr (h', t2) \<and>
               index h' = 0 \<and> version h' = 0 \<and>
               IsExpired t2 ?h = Inr True \<and> IsExpired t2 h' = Inr False"
    using AqcuireHandle_first_fit [OF v inv2, of "Some 9", THEN conjunct2, rule_format, of ?h]
      vh M
    by auto
  from v inv1 inv2 vh 1 2 3 4 5 show ?thesis by (intro conjI)
qed

lemma release_acquire_versions:
  assumes "valid_inst (Handle C)"
  shows "table_inv C t \<Longrightarrow> valid_handle t h \<Longrightarrow> (\<forall>j<index h. snd (t ! j) \<noteq> None) \<Longrightarrow>
         \<exists>hs t'. release_acquire C raws h t = Inr (hs, t') \<and> length hs = length raws \<and>
           (\<forall>k<length hs. hs ! k =
              \<lparr> index = index h,
                version = (version h + k + 1) mod (MAX_VERSION (Handle C) + 1) \<rparr>)"
proof (induction raws arbitrary: h t)
  case Nil
  then show ?case by simp
next
  case (Cons rawObject rest)
  let ?M = "MAX_VERSION (Handle C)"
  let ?v' = "(version h + 1) mod (?M + 1)"
  let ?h' = "\<lparr> index = index h, version = ?v' \<rparr>"
  let ?t2 = "t[index h := (?v', rawObject)]"
  from Cons.prems(2) have i: "index h < length t" by (simp add: valid_handle_def)
  note ra = release_then_acquire [OF assms Cons.prems]
  have "?v' < ?M + 1" by (rule mod_less_divisor) simp
  then have v'le: "?v' \<le> ?M" by simp
  have inv2: "table_inv C ?t2" by (rule table_inv_update [OF Cons.prems(1) v'le])
  have vh2: "valid_handle ?t2 ?h'" using i by (simp add: valid_handle_def)
  have occ2: "\<forall>j<index ?h'. snd (?t2 ! j) \<noteq> None" using Cons.prems(3) by simp
  from Cons.IH [OF inv2 vh2 occ2] obtain hs t' where
    r: "release_acquire C rest ?h' ?t2 = Inr (hs, t')" and l: "length hs = length rest" and
    e: "\<forall>k<length hs. hs ! k =
          \<lparr> index = index h, version = (?v' + k + 1) mod (?M + 1) \<rparr>"
    by auto
  have step: "release_acquire C (rawObject # rest) h t = Inr (?h' # hs, t')"
    using ra r by simp
  have "\<forall>k<length (?h' # hs). (?h' # hs) ! k =
          \<lparr> index = index h, version = (version h + k + 1) mod (?M + 1) \<rparr>"
  proof (intro allI impI)
    fix k assume k: "k < length (?h' # hs)"
    show "(?h' # hs) ! k = \<lparr> index = index h, version = (version h + k + 1) mod (?M + 1) \<rparr>"
    proof (cases k)
      case 0
      then show ?thesis by simp
    next
      case (Suc k')
      with k have "k' < length hs" by simp
      with e have "hs ! k' = \<lparr> index = index h, version = (?v' + k' + 1) mod (?M + 1) \<rparr>"
        by simp
      moreover have "(?v' + k' + 1) mod (?M + 1) = (version h + Suc k' + 1) mod (?M + 1)"
      proof -
        have "(?v' + k' + 1) mod (?M + 1) = (?v' + (k' + 1)) mod (?M + 1)"
          by (simp only: add.assoc)
        also have "\<dots> = ((version h + 1) + (k' + 1)) mod (?M + 1)"
          by (rule mod_add_left_eq)
        also have "(version h + 1) + (k' + 1) = version h + Suc k' + 1" by simp
        finally show ?thesis .
      qed
      ultimately show ?thesis using Suc by simp
    qed
  qed
  with step l show ?case by simp
qed

lemma wrap_exists:
  fixes v M :: nat
  assumes "v \<le> M"
  shows "\<exists>k. k + 1 < M + 2 \<and> (v + k + 1) mod (M + 1) = M \<and> (v + (k + 1) + 1) mod (M + 1) = 0"
proof (cases "v = M")
  case True
  have "(M + M + 1) mod (M + 1) = M" 
  proof -
    have "M + M + 1 = M + (M + 1)" by simp
    then have "(M + M + 1) mod (M + 1) = M mod (M + 1)" by (simp only: mod_add_self2)
    then show ?thesis by simp
  qed
  moreover have "(M + (M + 1) + 1) mod (M + 1) = 0"
  proof -
    have "M + (M + 1) + 1 = (M + 1) + (M + 1)" by simp
    then show ?thesis by (simp only: mod_add_self2 mod_self)
  qed
  ultimately show ?thesis using True by (intro exI [of _ M]) simp
next
  case False
  with assms have lt: "v < M" by simp
  then have "v + (M - v - 1) + 1 = M" by simp
  moreover from lt have "v + (M - v - 1 + 1) + 1 = M + 1" by simp
  ultimately show ?thesis using lt by (intro exI [of _ "M - v - 1"]) simp
qed

text \<open>
  C7. An acquisition that reuses a slot of version \<open>v\<close> stores \<open>v + 1\<close> when
  \<open>v < MAX_VERSION\<close> and \<^verbatim>\<open>MIN_VERISON\<close> when \<open>v = MAX_VERSION\<close>. Releasing and acquiring
  again on the same slot \<open>MAX_VERSION + 2\<close> times fails nowhere; the \<open>k\<close>-th handle issued
  has the version \<open>(v + k + 1) mod (MAX_VERSION + 1)\<close>, and somewhere in the sequence
  \<^verbatim>\<open>MAX_VERSION\<close> is followed by \<^verbatim>\<open>MIN_VERISON\<close>.
\<close>

theorem version_wraparound:
  assumes "valid_inst (Handle C)" and "table_inv C t"
  shows "(\<forall>i<length t. snd (t ! i) = None \<and> (\<forall>j<i. snd (t ! j) \<noteq> None) \<longrightarrow>
            (\<exists>h t'. AqcuireHandle C rawObject t = Inr (h, t') \<and>
                     fst (t' ! i) = (if fst (t ! i) < MAX_VERSION (Handle C) then fst (t ! i) + 1
                                     else MIN_VERISON (Handle C)) \<and>
                     version h = fst (t' ! i)))
       \<and> (\<forall>h raws. valid_handle t h \<and> (\<forall>j<index h. snd (t ! j) \<noteq> None) \<and>
                    length raws = MAX_VERSION (Handle C) + 2 \<longrightarrow>
            (\<exists>hs t'. release_acquire C raws h t = Inr (hs, t') \<and>
                      length hs = MAX_VERSION (Handle C) + 2 \<and>
                      (\<forall>k<length hs. index (hs ! k) = index h \<and>
                         version (hs ! k) = (version h + k + 1) mod (MAX_VERSION (Handle C) + 1)) \<and>
                      (\<exists>k. k + 1 < length hs \<and> version (hs ! k) = MAX_VERSION (Handle C) \<and>
                           version (hs ! (k + 1)) = MIN_VERISON (Handle C))))"
proof (intro conjI allI impI)
  fix i
  assume i: "i < length t" and e: "snd (t ! i) = None \<and> (\<forall>j<i. snd (t ! j) \<noteq> None)"
  let ?K = "Handle C"
  have len: "length t \<le> MAX_INDICES ?K" using assms(2) by (simp add: table_inv_def)
  have vle: "fst (t ! i) \<le> MAX_VERSION ?K" by (rule table_inv_version [OF assms(2) i])
  have nv: "next_version ?K (fst (t ! i)) =
              (if fst (t ! i) < MAX_VERSION ?K then fst (t ! i) + 1 else MIN_VERISON ?K)"
    using next_version_cases [OF assms(1), of "fst (t ! i)"] vle by auto
  have "AqcuireHandle C rawObject t =
          Inr (\<lparr> index = i, version = next_version ?K (fst (t ! i)) \<rparr>,
               t[i := (next_version ?K (fst (t ! i)), rawObject)])"
    using assms(1) len i e by (intro AqcuireHandle_reuse) simp_all
  then show "\<exists>h t'. AqcuireHandle C rawObject t = Inr (h, t') \<and>
                     fst (t' ! i) = (if fst (t ! i) < MAX_VERSION ?K then fst (t ! i) + 1
                                     else MIN_VERISON ?K) \<and>
                     version h = fst (t' ! i)"
    using i nv by simp
next
  fix h and raws :: "'a option list"
  let ?M = "MAX_VERSION (Handle C)"
  assume h: "valid_handle t h \<and> (\<forall>j<index h. snd (t ! j) \<noteq> None) \<and> length raws = ?M + 2"
  then have vh: "valid_handle t h" and occ: "\<forall>j<index h. snd (t ! j) \<noteq> None"
    and lr: "length raws = ?M + 2" by simp_all
  from vh have i: "index h < length t" and v: "version h = fst (t ! index h)"
    by (simp_all add: valid_handle_def)
  have vle: "version h \<le> ?M" using table_inv_version [OF assms(2) i] v by simp
  from release_acquire_versions [OF assms vh occ, of raws] obtain hs t' where
    r: "release_acquire C raws h t = Inr (hs, t')" and l: "length hs = length raws" and
    e: "\<forall>k<length hs. hs ! k =
          \<lparr> index = index h, version = (version h + k + 1) mod (?M + 1) \<rparr>"
    by auto
  from wrap_exists [OF vle] obtain k where
    k: "k + 1 < ?M + 2" and k1: "(version h + k + 1) mod (?M + 1) = ?M"
    and k2: "(version h + (k + 1) + 1) mod (?M + 1) = 0"
    by auto
  have "version (hs ! k) = ?M" using e k l lr k1 by simp
  moreover have "version (hs ! (k + 1)) = MIN_VERISON (Handle C)"
    using e k l lr k2 valid_inst_consts(1) [OF assms(1)] by simp
  ultimately have "\<exists>k. k + 1 < length hs \<and> version (hs ! k) = ?M \<and>
                       version (hs ! (k + 1)) = MIN_VERISON (Handle C)"
    using k l lr by (intro exI [of _ k]) simp
  then show "\<exists>hs t'. release_acquire C raws h t = Inr (hs, t') \<and>
                      length hs = ?M + 2 \<and>
                      (\<forall>k<length hs. index (hs ! k) = index h \<and>
                         version (hs ! k) = (version h + k + 1) mod (?M + 1)) \<and>
                      (\<exists>k. k + 1 < length hs \<and> version (hs ! k) = ?M \<and>
                           version (hs ! (k + 1)) = MIN_VERISON (Handle C))"
    using r l lr e by simp
qed


theorem version_wraparound_witness:
  "valid_inst (Handle HandleTable32) \<and>
   table_inv HandleTable32 ((4094, Some (7::nat)) # replicate 1023 (0, None)) \<and>
   valid_handle ((4094, Some (7::nat)) # replicate 1023 (0, None)) \<lparr> index = 0, version = 4094 \<rparr> \<and>
   length (replicate 4097 (Some (9::nat))) = MAX_VERSION (Handle HandleTable32) + 2 \<and>
   (\<exists>hs t'. release_acquire HandleTable32 (replicate 4097 (Some 9))
               \<lparr> index = 0, version = 4094 \<rparr> ((4094, Some (7::nat)) # replicate 1023 (0, None)) = Inr (hs, t') \<and>
            length hs = 4097 \<and>
            version (hs ! 0) = 4095 \<and> version (hs ! 1) = 0 \<and> version (hs ! 2) = 1 \<and>
            version (hs ! 4096) = 4095)"
proof -
  let ?t = "(4094, Some (7::nat)) # replicate 1023 (0, None)" and ?h = "\<lparr> index = 0, version = 4094 \<rparr>"
  have v: "valid_inst (Handle HandleTable32)"
    using valid_inst_Handle32_inst by (simp add: HandleTable32_def)
  have M: "MAX_VERSION (Handle HandleTable32) = 4095"
    by (simp add: HandleTable32_def Handle32_inst_def)
  have inv: "table_inv HandleTable32 ?t"
    by (simp add: table_inv_def list_all_iff HandleTable32_def Handle32_inst_def)
  have vh: "valid_handle ?t ?h" by (simp add: valid_handle_def)
  have "\<exists>hs t'. release_acquire HandleTable32 (replicate 4097 (Some 9)) ?h ?t = Inr (hs, t') \<and>
          length hs = MAX_VERSION (Handle HandleTable32) + 2 \<and>
          (\<forall>k<length hs. index (hs ! k) = index ?h \<and>
             version (hs ! k) = (version ?h + k + 1) mod (MAX_VERSION (Handle HandleTable32) + 1)) \<and>
          (\<exists>k. k + 1 < length hs \<and> version (hs ! k) = MAX_VERSION (Handle HandleTable32) \<and>
               version (hs ! (k + 1)) = MIN_VERISON (Handle HandleTable32))"
    using version_wraparound [OF v inv, of "Some 9", THEN conjunct2, rule_format,
        of ?h "replicate 4097 (Some 9)"] vh M
    by simp
  then obtain hs t' where
    r: "release_acquire HandleTable32 (replicate 4097 (Some 9)) ?h ?t = Inr (hs, t')" and
    l: "length hs = 4097" and
    e: "\<forall>k<length hs. version (hs ! k) = (4094 + k + 1) mod 4096"
    using M by auto
  from e l have "version (hs ! 0) = 4095" "version (hs ! 1) = 0" "version (hs ! 2) = 1"
    "version (hs ! 4096) = 4095" by simp_all
  with r l v inv vh M show ?thesis by simp
qed

section \<open>Exhaustion\<close>

text \<open>
  C9. With assertions enabled, acquiring on a full table whose length has reached
  \<^verbatim>\<open>MAX_INDICES\<close> ends in the assertion \<^verbatim>\<open>"Max table capacity reached!"\<close>, not in a
  returned value; and on a table whose length is below \<^verbatim>\<open>MAX_INDICES\<close>,
  \<^verbatim>\<open>AqcuireHandle\<close> never ends in an assertion failure.
\<close>

theorem AqcuireHandle_exhaustion:
  "(full t \<and> MAX_INDICES (Handle C) \<le> length t \<and> \<not> NDEBUG C \<longrightarrow>
      AqcuireHandle C rawObject t = Inl (AssertionFailed ''Max table capacity reached!''))
   \<and> (length t < MAX_INDICES (Handle C) \<longrightarrow>
      (\<forall>msg. AqcuireHandle C rawObject t \<noteq> Inl (AssertionFailed msg)))"
proof (intro conjI impI allI)
  assume "full t \<and> MAX_INDICES (Handle C) \<le> length t \<and> \<not> NDEBUG C"
  then show "AqcuireHandle C rawObject t = Inl (AssertionFailed ''Max table capacity reached!'')"
    by (simp add: AqcuireHandle_capacity_reached)
next
  fix msg
  assume lt: "length t < MAX_INDICES (Handle C)"
  then obtain t1 where g: "GrowTable C t = Inr t1"
    by (simp add: GrowTable_def assert_that_def Let_def)
  show "AqcuireHandle C rawObject t \<noteq> Inl (AssertionFailed msg)"
    by (simp add: AqcuireHandle_def g Let_def split: sum.splits)
qed

theorem AqcuireHandle_exhaustion_witness:
  "full (replicate 1048575 (1::nat, Some (0::nat))) \<and>
   MAX_INDICES (Handle HandleTable32) \<le> length (replicate 1048575 (1::nat, Some (0::nat))) \<and>
   \<not> NDEBUG HandleTable32 \<and>
   AqcuireHandle HandleTable32 (Some 1) (replicate 1048575 (1, Some (0::nat)))
     = Inl (AssertionFailed ''Max table capacity reached!'') \<and>
   length [(1::nat, Some (0::nat))] < MAX_INDICES (Handle HandleTable32) \<and>
   AqcuireHandle HandleTable32 (Some 1) [(1, Some (0::nat))]
     \<noteq> Inl (AssertionFailed ''Max table capacity reached!'')"
  using AqcuireHandle_exhaustion [of "replicate 1048575 (1, Some (0::nat))" HandleTable32 "Some 1"]
        AqcuireHandle_exhaustion [of "[(1, Some (0::nat))]" HandleTable32 "Some 1"]
  by (simp add: full_def list_all_iff HandleTable32_def Handle32_inst_def)

section \<open>Growth\<close>

lemma ReleaseHandle_Inr:
  assumes "ReleaseHandle C h t = Inr t'"
  shows "index h < length t" and "t' = t[index h := (fst (t ! index h), None)]"
  using assms by (auto simp add: ReleaseHandle_def split: sum.splits if_splits)

lemma table_inv_grown:
  assumes "valid_inst (Handle C)" and "table_inv C t"
    and "length t < min (length t + grow C) (MAX_INDICES (Handle C))"
  shows "table_inv C (t @ (1, rawObject) #
           replicate (min (length t + grow C) (MAX_INDICES (Handle C)) - length t - 1) (0, None))"
proof -
  have "1 \<le> MAX_VERSION (Handle C)" using valid_inst_pos(1) [OF assms(1)] by simp
  then show ?thesis using assms(2,3) by (auto simp add: table_inv_def list_all_iff)
qed

lemma AqcuireHandle_step:
  assumes "valid_inst (Handle C)"
    and "MAX_INDICES (Handle C) + grow C < 2 ^ index_type_bits (Handle C)"
    and "table_inv C t" and "AqcuireHandle C rawObject t = Inr (h, t')"
  shows "table_inv C t' \<and> length t \<le> length t'"
proof (cases "full t")
  case False
  from first_empty_slot [OF False] obtain i where
    i: "i < length t" and e: "snd (t ! i) = None" and o: "\<forall>j<i. snd (t ! j) \<noteq> None"
    by auto
  have len: "length t \<le> MAX_INDICES (Handle C)" using assms(3) by (simp add: table_inv_def)
  have "t' = t[i := (next_version (Handle C) (fst (t ! i)), rawObject)]"
    using AqcuireHandle_reuse [OF assms(1) len i e o, of rawObject] assms(4) by simp
  then show ?thesis
    using table_inv_update [OF assms(3) next_version_le [OF assms(1)]] by simp
next
  case True
  have len: "length t \<le> MAX_INDICES (Handle C)" using assms(3) by (simp add: table_inv_def)
  then have ov: "length t + grow C < 2 ^ index_type_bits (Handle C)" using assms(2) by simp
  show ?thesis
  proof (cases "NDEBUG C \<or> length t < MAX_INDICES (Handle C)")
    case False
    then have "AqcuireHandle C rawObject t = Inl (AssertionFailed ''Max table capacity reached!'')"
      using True by (intro AqcuireHandle_capacity_reached) simp_all
    with assms(4) show ?thesis by simp
  next
    case nd: True
    note F = AqcuireHandle_full [OF assms(1) True len ov nd, of rawObject]
    show ?thesis
    proof (cases "length t < min (length t + grow C) (MAX_INDICES (Handle C))")
      case False
      from F [unfolded if_not_P [OF False]] assms(4) show ?thesis by simp
    next
      case lt: True
      from F [unfolded if_P [OF lt]] assms(4) have "t' = t @ (1, rawObject) #
           replicate (min (length t + grow C) (MAX_INDICES (Handle C)) - length t - 1) (0, None)"
        by simp
      then show ?thesis using table_inv_grown [OF assms(1,3) lt] by simp
    qed
  qed
qed

lemma apply_operation_step:
  assumes "valid_inst (Handle C)"
    and "MAX_INDICES (Handle C) + grow C < 2 ^ index_type_bits (Handle C)"
    and "table_inv C t" and "apply_operation C x t = Inr t'"
  shows "table_inv C t' \<and> length t \<le> length t'"
proof (cases x)
  case (Acquire rawObject)
  with assms(4) obtain h where "AqcuireHandle C rawObject t = Inr (h, t')"
    by (auto split: sum.splits)
  then show ?thesis by (rule AqcuireHandle_step [OF assms(1,2,3)])
next
  case (Release h)
  with assms(4) have r: "ReleaseHandle C h t = Inr t'" by simp
  note R = ReleaseHandle_Inr [OF r]
  have "fst (t ! index h) \<le> MAX_VERSION (Handle C)"
    by (rule table_inv_version [OF assms(3) R(1)])
  then show ?thesis using R(2) table_inv_update [OF assms(3)] by simp
qed

lemma run_length:
  assumes "valid_inst (Handle C)"
    and "MAX_INDICES (Handle C) + grow C < 2 ^ index_type_bits (Handle C)"
  shows "table_inv C t \<Longrightarrow> run C xs t = Inr t' \<Longrightarrow> table_inv C t' \<and> length t \<le> length t'"
proof (induction xs arbitrary: t)
  case Nil
  then show ?case by simp
next
  case (Cons x xs)
  from Cons.prems(2) obtain t1 where
    s: "apply_operation C x t = Inr t1" and r: "run C xs t1 = Inr t'"
    by (auto split: sum.splits)
  from apply_operation_step [OF assms Cons.prems(1) s]
  have "table_inv C t1" and "length t \<le> length t1" by simp_all
  moreover from Cons.IH [OF \<open>table_inv C t1\<close> r]
  have "table_inv C t'" and "length t1 \<le> length t'" by simp_all
  ultimately show ?case by simp
qed

text \<open>
  Every table that a run of acquisitions and releases reaches from a freshly constructed
  one is within the invariant.
\<close>

lemma reachable_table_inv:
  fixes t0 :: "'a TableEntry list"
  assumes "valid_inst (Handle C)"
    and "MAX_INDICES (Handle C) + grow C < 2 ^ index_type_bits (Handle C)"
    and "HandleTable C = Inr t0" and "run C xs t0 = Inr t"
  shows "table_inv C t"
proof -
  have "grow C < 2 ^ index_type_bits (Handle C)" using assms(2) by simp
  then have "table_inv C t0" using assms(1,3) by (intro HandleTable_table_inv)
  then show ?thesis using run_length [OF assms(1,2) _ assms(4)] by simp
qed

text \<open>
  C8. The growth increment is taken not to overflow \<^verbatim>\<open>size_t\<close>:
  \<open>MAX_INDICES + grow < 2 ^ index_type_bits\<close>. On a full table of length \<open>L\<close> below
  \<^verbatim>\<open>MAX_INDICES\<close>, \<^verbatim>\<open>GrowTable\<close> appends \<open>min (L + grow) MAX_INDICES - L\<close> slots
  \<open>(MIN_VERISON, empty)\<close> and leaves the old slots as they were, and so does the
  acquisition that triggers it, which then occupies the slot at index \<open>L\<close>. An
  acquisition on a table with an empty slot and a release keep the length, and over any
  sequence of acquisitions and releases the length never decreases.
\<close>

theorem table_growth:
  assumes "valid_inst (Handle C)"
    and "MAX_INDICES (Handle C) + grow C < 2 ^ index_type_bits (Handle C)"
    and "table_inv C t"
  shows "(full t \<and> length t < MAX_INDICES (Handle C) \<longrightarrow>
            GrowTable C t =
              Inr (t @ replicate (min (length t + grow C) (MAX_INDICES (Handle C)) - length t)
                         (MIN_VERISON (Handle C), None)))
       \<and> (full t \<and> length t < MAX_INDICES (Handle C) \<and> 0 < grow C \<longrightarrow>
            (\<exists>h t'. AqcuireHandle C rawObject t = Inr (h, t') \<and>
                     length t' = min (length t + grow C) (MAX_INDICES (Handle C)) \<and>
                     take (length t) t' = t \<and>
                     index h = length t \<and> snd (t' ! length t) = rawObject \<and>
                     (\<forall>j. length t < j \<and> j < length t' \<longrightarrow>
                        t' ! j = (MIN_VERISON (Handle C), None))))
       \<and> (\<not> full t \<longrightarrow>
            (\<exists>h t'. AqcuireHandle C rawObject t = Inr (h, t') \<and> length t' = length t))
       \<and> (\<forall>h t'. ReleaseHandle C h t = Inr t' \<longrightarrow> length t' = length t)
       \<and> (\<forall>xs t'. run C xs t = Inr t' \<longrightarrow> length t \<le> length t')"
proof (intro conjI allI impI)
  have len: "length t \<le> MAX_INDICES (Handle C)" using assms(3) by (simp add: table_inv_def)
  then have ov: "length t + grow C < 2 ^ index_type_bits (Handle C)" using assms(2) by simp
  let ?n = "min (length t + grow C) (MAX_INDICES (Handle C))"
  { assume "full t \<and> length t < MAX_INDICES (Handle C)"
    then show "GrowTable C t =
                 Inr (t @ replicate (?n - length t) (MIN_VERISON (Handle C), None))"
      using len ov by (intro GrowTable_result) simp_all }
  { assume a: "full t \<and> length t < MAX_INDICES (Handle C) \<and> 0 < grow C"
    then have lt: "length t < ?n" by simp
    from a have nd: "NDEBUG C \<or> length t < MAX_INDICES (Handle C)" by simp
    from a have f: "full t" by simp
    let ?t' = "t @ (1, rawObject) # replicate (?n - length t - 1) (0, None)"
    have A: "AqcuireHandle C rawObject t = Inr (\<lparr> index = length t, version = 0 \<rparr>, ?t')"
      using AqcuireHandle_full [OF assms(1) f len ov nd, of rawObject, unfolded if_P [OF lt]] .
    have l': "length ?t' = ?n" using lt by simp
    have rest: "\<forall>j. length t < j \<and> j < length ?t' \<longrightarrow> ?t' ! j = (MIN_VERISON (Handle C), None)"
    proof (intro allI impI)
      fix j assume j: "length t < j \<and> j < length ?t'"
      then obtain d where d: "j = length t + Suc d" by (metis less_imp_Suc_add add_Suc_right)
      with j have "d < ?n - length t - 1" by simp
      then show "?t' ! j = (MIN_VERISON (Handle C), None)"
        using d by (simp add: nth_append valid_inst_consts(1) [OF assms(1)])
    qed
    show "\<exists>h t'. AqcuireHandle C rawObject t = Inr (h, t') \<and>
                     length t' = ?n \<and> take (length t) t' = t \<and>
                     index h = length t \<and> snd (t' ! length t) = rawObject \<and>
                     (\<forall>j. length t < j \<and> j < length t' \<longrightarrow>
                        t' ! j = (MIN_VERISON (Handle C), None))"
      using A l' rest by (intro exI [of _ "\<lparr> index = length t, version = 0 \<rparr>"] exI [of _ ?t']) simp }
  { assume nf: "\<not> full t"
    from first_empty_slot [OF nf] obtain i where
      i: "i < length t" and e: "snd (t ! i) = None" and o: "\<forall>j<i. snd (t ! j) \<noteq> None"
      by auto
    show "\<exists>h t'. AqcuireHandle C rawObject t = Inr (h, t') \<and> length t' = length t"
      using AqcuireHandle_reuse [OF assms(1) len i e o, of rawObject] by simp }
  { fix h t' assume "ReleaseHandle C h t = Inr t'"
    then show "length t' = length t" using ReleaseHandle_Inr(2) by fastforce }
  { fix xs t' assume "run C xs t = Inr t'"
    then show "length t \<le> length t'" using run_length [OF assms(1,2,3)] by simp }
qed


theorem table_growth_witness:
  "valid_inst (Handle HandleTable32) \<and>
   MAX_INDICES (Handle HandleTable32) + grow HandleTable32
     < 2 ^ index_type_bits (Handle HandleTable32) \<and>
   table_inv HandleTable32 (replicate 1024 (1, Some (7::nat))) \<and>
   full (replicate 1024 (1::nat, Some (7::nat))) \<and>
   length (replicate 1024 (1::nat, Some (7::nat))) < MAX_INDICES (Handle HandleTable32) \<and>
   GrowTable HandleTable32 (replicate 1024 (1, Some (7::nat)))
     = Inr (replicate 1024 (1, Some 7) @ replicate 1024 (0, None)) \<and>
   (\<exists>h t'. AqcuireHandle HandleTable32 (Some 8) (replicate 1024 (1, Some (7::nat))) = Inr (h, t') \<and>
           length t' = 2048 \<and> take 1024 t' = replicate 1024 (1, Some 7) \<and> index h = 1024) \<and>
   table_inv HandleTable32 ((1, Some (7::nat)) # (2, None) # replicate 1022 (0, None)) \<and>
   \<not> full ((1::nat, Some (7::nat)) # (2, None) # replicate 1022 (0, None)) \<and>
   (\<exists>h t'. AqcuireHandle HandleTable32 (Some 8) ((1, Some (7::nat)) # (2, None) # replicate 1022 (0, None)) = Inr (h, t') \<and>
           length t' = 1024) \<and>
   run HandleTable32 [Release \<lparr> index = 0, version = 1 \<rparr>, Acquire (Some 8), Acquire (Some 9)]
       ((1, Some (7::nat)) # (2, None) # replicate 1022 (0, None)) = Inr ((2, Some 8) # (3, Some 9) # replicate 1022 (0, None)) \<and>
   length ((1::nat, Some (7::nat)) # (2, None) # replicate 1022 (0, None)) \<le> length ((2::nat, Some (8::nat)) # (3, Some 9) # replicate 1022 (0, None))"
proof -
  let ?tF = "replicate 1024 (1::nat, Some (7::nat))"
  let ?tN = "(1::nat, Some (7::nat)) # (2, None) # replicate 1022 (0, None)"
  have v: "valid_inst (Handle HandleTable32)"
    using valid_inst_Handle32_inst by (simp add: HandleTable32_def)
  have ov: "MAX_INDICES (Handle HandleTable32) + grow HandleTable32
              < 2 ^ index_type_bits (Handle HandleTable32)"
    by (simp add: HandleTable32_def Handle32_inst_def)
  have invF: "table_inv HandleTable32 ?tF"
    by (simp add: table_inv_def list_all_iff HandleTable32_def Handle32_inst_def)
  have invN: "table_inv HandleTable32 ?tN"
    by (simp add: table_inv_def list_all_iff HandleTable32_def Handle32_inst_def)
  have fF: "full ?tF" by (simp add: full_def list_all_iff)
  have nfN: "\<not> full ?tN" by (simp add: full_def)
  have ltF: "length ?tF < MAX_INDICES (Handle HandleTable32)"
    by (simp add: HandleTable32_def Handle32_inst_def)
  have n: "min (length ?tF + grow HandleTable32) (MAX_INDICES (Handle HandleTable32)) = 2048"
    by (simp add: HandleTable32_def Handle32_inst_def)
  have g: "0 < grow HandleTable32" by (simp add: HandleTable32_def)
  have mn: "MIN_VERISON (Handle HandleTable32) = 0"
    by (simp add: HandleTable32_def Handle32_inst_def)
  note GF = table_growth [OF v ov invF, of "Some 8"]
  note GN = table_growth [OF v ov invN, of "Some 8"]
  have 1: "GrowTable HandleTable32 ?tF = Inr (?tF @ replicate 1024 (0, None))"
    using GF [THEN conjunct1] fF ltF n mn by simp
  have 2: "\<exists>h t'. AqcuireHandle HandleTable32 (Some 8) ?tF = Inr (h, t') \<and>
           length t' = 2048 \<and> take 1024 t' = ?tF \<and> index h = 1024"
    using GF [THEN conjunct2, THEN conjunct1] fF ltF n g by auto
  have 3: "\<exists>h t'. AqcuireHandle HandleTable32 (Some 8) ?tN = Inr (h, t') \<and> length t' = 1024"
    using GN [THEN conjunct2, THEN conjunct2, THEN conjunct1] nfN
    by simp
  have r: "run HandleTable32
             [Release \<lparr> index = 0, version = 1 \<rparr>, Acquire (Some 8), Acquire (Some 9)] ?tN
             = Inr ((2, Some 8) # (3, Some 9) # replicate 1022 (0, None))"
    by (simp add: ReleaseHandle_def assert_that_def AqcuireHandle_def AqcuireHandle_scan.simps
        next_version_def version_plus_1_def Handle_ctor_def HandleTable32_def Handle32_inst_def
        Let_def)
  have 4: "length ?tN \<le> length ((2::nat, Some (8::nat)) # (3, Some 9) # replicate 1022 (0, None))"
    by (rule GN [THEN conjunct2, THEN conjunct2, THEN conjunct2, THEN conjunct2,
          rule_format, OF r])
  from v ov invF fF ltF 1 2 invN nfN 3 r 4 show ?thesis by (intro conjI)
qed

lemma run_acquire_fresh:
  assumes "valid_inst (Handle C)"
  shows "k + m \<le> MAX_INDICES (Handle C) \<Longrightarrow> n \<le> m \<Longrightarrow>
         run C (replicate n (Acquire (Some x))) (replicate k (1, Some x) @ replicate m (0, None))
           = Inr (replicate (k + n) (1, Some x) @ replicate (m - n) (0, None))"
proof (induction n arbitrary: k m)
  case 0
  then show ?case by simp
next
  case (Suc n)
  then obtain m' where m: "m = Suc m'" by (cases m) simp_all
  let ?a = "(1::nat, Some x)" and ?z = "(0::nat, None :: 'a option)"
  let ?t = "replicate k ?a @ replicate (Suc m') ?z"
  have len: "length ?t \<le> MAX_INDICES (Handle C)" using Suc.prems(1) m by simp
  have k: "k < length ?t" by simp
  have e: "snd (?t ! k) = None" by (simp add: nth_append)
  have o: "\<forall>j<k. snd (?t ! j) \<noteq> None" by (simp add: nth_append)
  have z: "fst (?t ! k) = 0" by (simp add: nth_append)
  have nv: "next_version (Handle C) 0 = 1"
    using next_version_cases(1) [OF assms, of 0] valid_inst_pos(1) [OF assms] by simp
  have upd: "?t[k := ?a] = replicate (Suc k) ?a @ replicate m' ?z"
    by (simp add: list_update_append replicate_app_Cons_same)
  have "AqcuireHandle C (Some x) ?t = Inr (\<lparr> index = k, version = 1 \<rparr>, ?t[k := ?a])"
    using AqcuireHandle_reuse [OF assms len k e o, of "Some x"] z nv by simp
  then have "run C (replicate (Suc n) (Acquire (Some x))) ?t
               = run C (replicate n (Acquire (Some x))) (replicate (Suc k) ?a @ replicate m' ?z)"
    using upd by simp
  also have "\<dots> = Inr (replicate (Suc k + n) ?a @ replicate (m' - n) ?z)"
    using Suc.prems m by (intro Suc.IH) simp_all
  finally show ?case using m by simp
qed

text \<open>
  C1 fails on the growth path. A default table of \<^verbatim>\<open>Handle32\<close> is constructed with 1024
  slots; 1024 acquisitions fill it; the next acquisition grows the table, occupies slot
  1024 and returns the handle (1024, 0), built from the version before the post-increment,
  while the slot holds version 1: \<^verbatim>\<open>IsExpired\<close> of the handle just returned is true, and
  dereferencing it ends in the assertion \<^verbatim>\<open>"Invalid handle!"\<close>.
\<close>

theorem AqcuireHandle_growth_expired:
  "HandleTable HandleTable32 = (Inr (replicate 1024 (0, None)) :: error + nat TableEntry list) \<and>
   run HandleTable32 (replicate 1024 (Acquire (Some 7))) (replicate 1024 (0, None))
     = Inr (replicate 1024 (1, Some (7::nat))) \<and>
   AqcuireHandle HandleTable32 (Some 8) (replicate 1024 (1, Some (7::nat)))
     = Inr (\<lparr> index = 1024, version = 0 \<rparr>,
            replicate 1024 (1, Some 7) @ (1, Some 8) # replicate 1023 (0, None)) \<and>
   IsExpired (replicate 1024 (1, Some (7::nat)) @ (1, Some 8) # replicate 1023 (0, None))
       \<lparr> index = 1024, version = 0 \<rparr> = Inr True \<and>
   operator_handle HandleTable32
       (replicate 1024 (1, Some (7::nat)) @ (1, Some 8) # replicate 1023 (0, None))
       \<lparr> index = 1024, version = 0 \<rparr> = Inl (AssertionFailed ''Invalid handle!'')"
proof -
  let ?C = HandleTable32
  let ?tF = "replicate 1024 (1::nat, Some (7::nat))"
  have K: "Handle ?C = Handle32_inst" "grow ?C = 1024" "NDEBUG ?C = False"
    by (simp_all add: HandleTable32_def)
  have v: "valid_inst (Handle ?C)" using valid_inst_Handle32_inst by (simp add: K)
  have c: "MAX_INDICES (Handle ?C) = 1048575" "MIN_VERISON (Handle ?C) = 0"
    "index_type_bits (Handle ?C) = 32"
    by (simp_all add: K Handle32_inst_def)
  have 1: "HandleTable ?C = (Inr (replicate 1024 (0, None)) :: error + nat TableEntry list)"
    by (rule HandleTable32_fresh)
  have 2: "run ?C (replicate 1024 (Acquire (Some 7))) (replicate 1024 (0, None)) = Inr ?tF"
    using run_acquire_fresh [OF v, of 0 1024 1024 7] by (simp add: c)
  have f: "full ?tF" by (simp add: full_def list_all_iff)
  have 3: "AqcuireHandle ?C (Some 8) ?tF
             = Inr (\<lparr> index = 1024, version = 0 \<rparr>, ?tF @ (1, Some 8) # replicate 1023 (0, None))"
    using AqcuireHandle_full [OF v f, of "Some 8"] by (simp add: K(2,3) c)
  have 4: "IsExpired (?tF @ (1, Some 8) # replicate 1023 (0, None))
             \<lparr> index = 1024, version = 0 \<rparr> = Inr True"
    by (simp add: IsExpired_def nth_append)
  have 5: "operator_handle ?C (?tF @ (1, Some 8) # replicate 1023 (0, None))
             \<lparr> index = 1024, version = 0 \<rparr> = Inl (AssertionFailed ''Invalid handle!'')"
    by (simp add: operator_handle_def assert_that_def nth_append K(3))
  from 1 2 3 4 5 show ?thesis by (intro conjI)
qed

end
